theory Spec2Isabelle
  imports Main "HOL-Library.Word"
begin

unbundle bit_operations_syntax

section \<open>Types of the position core\<close>

text \<open>
  The repository's \<^verbatim>\<open>position.cpp\<close> is embedded function by function. Its headers
  (\<^verbatim>\<open>types.h\<close>, \<^verbatim>\<open>bitboard.h\<close>, \<^verbatim>\<open>position.h\<close>) are not part of the sources at
  hand: the enumerations and the inline board primitives are modelled from the
  specification, and the attack tables, the Zobrist table and the piece values are
  taken as a parameter (the record \<open>Env\<close>), so that every theorem about a function
  of \<^verbatim>\<open>position.cpp\<close> holds for whatever tables the engine is built with.

  A bitboard is a 128-bit word with one bit per square, a square is a number
  (0 to 89 on the board), a hash key is a 64-bit word, a value is an \<^verbatim>\<open>int\<close>.
  The \<^verbatim>\<open>assert\<close> lines of the source are checks of the caller's contract that a
  release build compiles away; they are not branches of the functions below, and
  where a theorem needs what they say it assumes it.
\<close>

type_synonym Square = nat
type_synonym File = nat
type_synonym Bitboard = "128 word"
type_synonym Key = "64 word"
type_synonym Value = int

datatype Color = WHITE | BLACK

text \<open>
  Modelled from the spec: \<^verbatim>\<open>types.h\<close> is absent. The seven piece kinds in the order
  of the letters of \<^verbatim>\<open>PieceToChar\<close> (" RACPNBK racpnbk"), with \<open>NO_PIECE_TYPE\<close>
  for the kind of the empty piece and \<open>KNIGHT_TO\<close>, the inverse knight attack that
  the source passes to \<^verbatim>\<open>attacks_bb\<close> as a kind.
\<close>

datatype PieceType =
  NO_PIECE_TYPE | ROOK | ADVISOR | CANNON | PAWN | KNIGHT | BISHOP | KING | KNIGHT_TO

text \<open>
  Modelled from the spec: a piece is a (colour, kind) pair; the distinguished
  \<open>NO_PIECE\<close> is the pair numbered 0, white with no kind, so that \<open>type_of\<close> and
  \<open>color_of\<close> are total as they are in the source (\<^verbatim>\<open>type_of(captured) != KING\<close> is
  evaluated on an empty capture).
\<close>

datatype Piece = make_piece (color_of: Color) (type_of: PieceType)

definition NO_PIECE :: Piece where
  "NO_PIECE = make_piece WHITE NO_PIECE_TYPE"

text \<open>
  Modelled from the spec: a move is a compact value carrying a from-square and a
  to-square; \<open>MOVE_NONE\<close> is the move numbered 0.
\<close>

datatype Move = make_move (from_sq: Square) (to_sq: Square)

definition MOVE_NONE :: Move where
  "MOVE_NONE = make_move 0 0"

definition SQ_NONE :: Square where
  "SQ_NONE = 90"

definition SQUARE_NB :: nat where
  "SQUARE_NB = 90"

fun flip_color :: "Color \<Rightarrow> Color" where
  "flip_color WHITE = BLACK"
| "flip_color BLACK = WHITE"

text \<open>
  Modelled from the spec: squares are numbered rank by rank from A0, nine files to a
  rank (the FEN reader steps \<^verbatim>\<open>EAST\<close> by one square and \<^verbatim>\<open>2 * SOUTH\<close> back over two
  ranks from the square after a rank's last).
\<close>

definition make_square :: "File \<Rightarrow> nat \<Rightarrow> Square" where
  "make_square f r = r * 9 + f"

definition file_of :: "Square \<Rightarrow> File" where
  "file_of s = s mod 9"

definition rank_of :: "Square \<Rightarrow> nat" where
  "rank_of s = s div 9"

section \<open>Bitboard primitives\<close>

text \<open>
  Modelled from the spec: \<^verbatim>\<open>bitboard.h\<close> is absent; the specification lists
  \<^verbatim>\<open>square_bb\<close>, \<^verbatim>\<open>popcount\<close>, \<^verbatim>\<open>pop_lsb\<close>, \<^verbatim>\<open>least_significant_square_bb\<close> and
  \<^verbatim>\<open>more_than_one\<close> as the usual bit-set primitives. \<open>lsb\<close> is the lowest square of
  a bitboard (128 on the empty bitboard, where the source's is undefined), and
  \<open>pop_lsb\<close> returns it together with the bitboard without it.
\<close>

definition square_bb :: "Square \<Rightarrow> Bitboard" where
  "square_bb s = push_bit s 1"

definition squares_of :: "Bitboard \<Rightarrow> Square list" where
  "squares_of b = filter (bit b) [0..<128]"

definition popcount :: "Bitboard \<Rightarrow> nat" where
  "popcount b = length (squares_of b)"

definition more_than_one :: "Bitboard \<Rightarrow> bool" where
  "more_than_one b = (1 < popcount b)"

definition lsb :: "Bitboard \<Rightarrow> Square" where
  "lsb b = (case squares_of b of [] \<Rightarrow> 128 | s # _ \<Rightarrow> s)"

definition least_significant_square_bb :: "Bitboard \<Rightarrow> Bitboard" where
  "least_significant_square_bb b = square_bb (lsb b)"

definition pop_lsb :: "Bitboard \<Rightarrow> Square \<times> Bitboard" where
  "pop_lsb b = (lsb b, b AND NOT (square_bb (lsb b)))"

lemma bit_square_bb: "bit (square_bb s) n \<longleftrightarrow> n = s \<and> s < 128"
  by (auto simp: square_bb_def bit_simps)

lemma set_squares_of: "set (squares_of b) = {n. bit b n}"
  by (auto simp: squares_of_def dest: bit_imp_le_length)

lemma squares_of_empty: "squares_of b = [] \<longleftrightarrow> b = 0"
proof
  assume "squares_of b = []"
  then have "{n. bit b n} = {}"
    using set_squares_of [of b] by simp
  then show "b = 0"
    by (auto simp: bit_eq_iff)
next
  assume "b = 0"
  then show "squares_of b = []"
    by (simp add: squares_of_def)
qed

lemma bit_lsb: "b \<noteq> 0 \<Longrightarrow> bit b (lsb b)"
proof -
  assume "b \<noteq> 0"
  then obtain s ss where e: "squares_of b = s # ss"
    using squares_of_empty [of b] by (cases "squares_of b") auto
  then have "s \<in> set (squares_of b)"
    by simp
  then have "bit b s"
    by (simp add: set_squares_of)
  then show ?thesis
    using e by (simp add: lsb_def)
qed

lemma lsb_less: "b \<noteq> 0 \<Longrightarrow> lsb b < 128"
  using bit_lsb [of b] bit_imp_le_length [of b "lsb b"] by simp

lemma squares_of_pop:
  "squares_of (b AND NOT (square_bb s)) = filter (\<lambda>n. n \<noteq> s) (squares_of b)"
proof -
  have "\<And>n. n < 128 \<Longrightarrow> bit (b AND NOT (square_bb s)) n \<longleftrightarrow> (n \<noteq> s \<and> bit b n)"
    by (auto simp: bit_simps bit_square_bb)
  then have "filter (bit (b AND NOT (square_bb s))) [0..<128]
      = filter (\<lambda>n. n \<noteq> s \<and> bit b n) [0..<128]"
    by (intro filter_cong) auto
  then show ?thesis
    by (simp add: squares_of_def conj_commute)
qed

lemma popcount_pop_lsb: "b \<noteq> 0 \<Longrightarrow> popcount (snd (pop_lsb b)) < popcount b"
proof -
  assume nz: "b \<noteq> 0"
  have "lsb b \<in> set (squares_of b)"
    using bit_lsb [OF nz] by (simp add: set_squares_of)
  then have "length (filter (\<lambda>n. n \<noteq> lsb b) (squares_of b)) < length (squares_of b)"
    by (intro length_filter_less [of "lsb b"]) auto
  then show ?thesis
    by (simp add: popcount_def pop_lsb_def squares_of_pop)
qed

text \<open>
  \<open>squares_of\<close> computed by halving, for evaluating the functions on concrete
  bitboards.
\<close>

fun bits_up :: "nat \<Rightarrow> int \<Rightarrow> nat \<Rightarrow> nat list" where
  "bits_up 0 k i = []"
| "bits_up (Suc n) k i =
     (if k = 0 then []
      else if odd k then i # bits_up n (k div 2) (Suc i)
      else bits_up n (k div 2) (Suc i))"

lemma bits_up_filter:
  "bits_up n k i = map (\<lambda>j. j + i) (filter (bit k) [0..<n])"
proof (induction n arbitrary: k i)
  case 0
  then show ?case by simp
next
  case (Suc n)
  have f: "filter (bit k) [0..<Suc n]
      = (if odd k then [0] else []) @ map Suc (filter (bit (k div 2)) [0..<n])"
    by (simp add: upt_rec [of 0 "Suc n"] map_Suc_upt [symmetric] filter_map o_def bit_Suc bit_0
        del: upt_Suc)
  show ?case
  proof (cases "k = 0")
    case True
    then show ?thesis by simp
  next
    case False
    then show ?thesis
      using Suc [of "k div 2" "Suc i"] by (simp add: f o_def del: upt_Suc)
  qed
qed

lemma squares_of_code [code]: "squares_of b = bits_up 128 (uint b) 0"
proof -
  have "filter (bit (uint b)) [0..<128] = filter (bit b) [0..<128]"
    by (rule filter_cong) (auto simp: bit_uint_iff)
  then show ?thesis
    by (simp add: bits_up_filter squares_of_def)
qed

text \<open>
  The source's loops \<^verbatim>\<open>while (b) { Square s = pop_lsb(b); ... }\<close> run their body on
  the squares of \<open>b\<close> from the lowest up; \<open>bb_loop\<close> is that loop, the body a
  function of the square and of the variables it updates.
\<close>

function bb_loop :: "(Square \<Rightarrow> 'a \<Rightarrow> 'a) \<Rightarrow> Bitboard \<Rightarrow> 'a \<Rightarrow> 'a" where
  "bb_loop body b acc =
     (if b = 0 then acc
      else bb_loop body (snd (pop_lsb b)) (body (fst (pop_lsb b)) acc))"
  by pat_completeness auto
termination
  by (relation "measure (\<lambda>(body, b, acc). popcount b)") (auto simp: popcount_pop_lsb)

declare bb_loop.simps [simp del]

section \<open>The tables of the absent headers\<close>

text \<open>
  The geometry oracle of \<^verbatim>\<open>bitboard.h\<close> (attack, between and line masks), the
  process-wide Zobrist table that \<^verbatim>\<open>Position::init\<close> fills from a generator of
  \<^verbatim>\<open>misc.h\<close>, and the value constants of \<^verbatim>\<open>types.h\<close> are parameters of the model.
  \<open>attacks_bb\<close> is \<^verbatim>\<open>attacks_bb<Pt>(s, occupied)\<close>, \<open>pseudo_attacks_bb\<close> the
  one-argument \<^verbatim>\<open>attacks_bb<Pt>(s)\<close> on the empty board, \<open>undo_move_board\<close> the
  helper of \<^verbatim>\<open>position.h\<close> that carries a set of squares back over a move.
\<close>

record Env =
  attacks_bb :: "PieceType \<Rightarrow> Square \<Rightarrow> Bitboard \<Rightarrow> Bitboard"
  pseudo_attacks_bb :: "PieceType \<Rightarrow> Square \<Rightarrow> Bitboard"
  pawn_attacks_bb :: "Color \<Rightarrow> Square \<Rightarrow> Bitboard"
  pawn_attacks_to_bb :: "Color \<Rightarrow> Square \<Rightarrow> Bitboard"
  between_bb :: "Square \<Rightarrow> Square \<Rightarrow> Bitboard"
  line_bb :: "Square \<Rightarrow> Square \<Rightarrow> Bitboard"
  aligned :: "Square \<Rightarrow> Square \<Rightarrow> Square \<Rightarrow> bool"
  file_bb :: "File \<Rightarrow> Bitboard"
  HalfBB :: "Color \<Rightarrow> Bitboard"
  KnightMagics_mask :: "Square \<Rightarrow> Bitboard"
  KnightToMagics_mask :: "Square \<Rightarrow> Bitboard"
  undo_move_board :: "Bitboard \<Rightarrow> Move \<Rightarrow> Bitboard"
  Zobrist_psq :: "Piece \<Rightarrow> Square \<Rightarrow> Key"
  Zobrist_side :: Key
  PieceValueMg :: "Piece \<Rightarrow> Value"
  PawnValueMg :: Value
  BishopValueMg :: Value
  AdvisorValueMg :: Value
  CannonValueMg :: Value
  KnightValueMg :: Value
  RookValueMg :: Value
  VALUE_MATE :: Value
  VALUE_DRAW :: Value

definition VALUE_ZERO :: Value where
  "VALUE_ZERO = 0"

section \<open>Position and StateInfo\<close>

text \<open>
  Modelled from the spec (section 3, the data model; \<^verbatim>\<open>position.h\<close> is absent).
  A \<open>StateInfo\<close> holds the fields the specification lists; its back pointer
  \<^verbatim>\<open>previous\<close> is the rest of the list the position keeps in \<open>st\<close>: the head of
  \<open>st p\<close> is the record \<^verbatim>\<open>st\<close> points to, its tail the chain \<^verbatim>\<open>st->previous\<close>,
  \<^verbatim>\<open>st->previous->previous\<close>, ..., and the empty list is the null pointer.
  \<open>nodes\<close> is the node counter of the owning thread.
\<close>

record DirtyPiece =
  dirty_num :: int
  dp_piece :: "nat \<Rightarrow> Piece"
  dp_from :: "nat \<Rightarrow> Square"
  dp_to :: "nat \<Rightarrow> Square"

record StateInfo =
  nonPawnMaterial :: "Color \<Rightarrow> Value"
  pliesFromNull :: int
  key :: Key
  checkersBB :: Bitboard
  blockersForKing :: "Color \<Rightarrow> Bitboard"
  pinners :: "Color \<Rightarrow> Bitboard"
  checkSquares :: "PieceType \<Rightarrow> Bitboard"
  capturedPiece :: Piece
  st_chased :: Bitboard
  move :: Move
  accumulator_computed :: "Color \<Rightarrow> bool"
  dirtyPiece :: DirtyPiece

record Position =
  board :: "Square \<Rightarrow> Piece"
  byKind :: "PieceType \<Rightarrow> Bitboard"
  byColor :: "Color \<Rightarrow> Bitboard"
  pieceCount :: "Piece \<Rightarrow> int"
  sideToMove :: Color
  gamePly :: int
  st :: "StateInfo list"
  nodes :: "64 word"

text \<open>
  Modelled from the spec: the inline accessors of \<^verbatim>\<open>position.h\<close>. The data model
  has one bitboard per kind and per colour and no separate occupancy, so
  \<^verbatim>\<open>pieces()\<close> is the union of the two colours; the overloads of \<^verbatim>\<open>pieces\<close> are
  told apart by a suffix (\<open>c\<close> for a colour, \<open>t\<close> for each kind).
\<close>

definition piece_on :: "Position \<Rightarrow> Square \<Rightarrow> Piece" where
  "piece_on p s = board p s"

definition empty_sq :: "Position \<Rightarrow> Square \<Rightarrow> bool" where
  "empty_sq p s = (piece_on p s = NO_PIECE)"

definition moved_piece :: "Position \<Rightarrow> Move \<Rightarrow> Piece" where
  "moved_piece p m = piece_on p (from_sq m)"

definition capture :: "Position \<Rightarrow> Move \<Rightarrow> bool" where
  "capture p m = (\<not> empty_sq p (to_sq m))"

definition pieces :: "Position \<Rightarrow> Bitboard" where
  "pieces p = byColor p WHITE OR byColor p BLACK"

definition pieces_c :: "Position \<Rightarrow> Color \<Rightarrow> Bitboard" where
  "pieces_c p c = byColor p c"

definition pieces_t :: "Position \<Rightarrow> PieceType \<Rightarrow> Bitboard" where
  "pieces_t p pt = byKind p pt"

definition pieces_tt :: "Position \<Rightarrow> PieceType \<Rightarrow> PieceType \<Rightarrow> Bitboard" where
  "pieces_tt p pt1 pt2 = byKind p pt1 OR byKind p pt2"

definition pieces_ct :: "Position \<Rightarrow> Color \<Rightarrow> PieceType \<Rightarrow> Bitboard" where
  "pieces_ct p c pt = byColor p c AND byKind p pt"

definition pieces_ctt :: "Position \<Rightarrow> Color \<Rightarrow> PieceType \<Rightarrow> PieceType \<Rightarrow> Bitboard" where
  "pieces_ctt p c pt1 pt2 = byColor p c AND (byKind p pt1 OR byKind p pt2)"

definition pieces_cttt ::
  "Position \<Rightarrow> Color \<Rightarrow> PieceType \<Rightarrow> PieceType \<Rightarrow> PieceType \<Rightarrow> Bitboard" where
  "pieces_cttt p c pt1 pt2 pt3 = byColor p c AND (byKind p pt1 OR byKind p pt2 OR byKind p pt3)"

definition square_of :: "Position \<Rightarrow> PieceType \<Rightarrow> Color \<Rightarrow> Square" where
  "square_of p pt c = lsb (pieces_ct p c pt)"

definition cur :: "Position \<Rightarrow> StateInfo" where
  "cur p = hd (st p)"

definition upd_st :: "(StateInfo \<Rightarrow> StateInfo) \<Rightarrow> Position \<Rightarrow> Position" where
  "upd_st f p = p\<lparr>st := f (hd (st p)) # tl (st p)\<rparr>"

definition captured_piece :: "Position \<Rightarrow> Piece" where
  "captured_piece p = capturedPiece (cur p)"

definition checkers :: "Position \<Rightarrow> Bitboard" where
  "checkers p = checkersBB (cur p)"

definition check_squares :: "Position \<Rightarrow> PieceType \<Rightarrow> Bitboard" where
  "check_squares p pt = checkSquares (cur p) pt"

definition blockers_for_king_c :: "Position \<Rightarrow> Color \<Rightarrow> Bitboard" where
  "blockers_for_king_c p c = blockersForKing (cur p) c"

definition pinners_c :: "Position \<Rightarrow> Color \<Rightarrow> Bitboard" where
  "pinners_c p c = pinners (cur p) c"

text \<open>
  Modelled from the spec: the three board primitives of \<^verbatim>\<open>position.h\<close>, which keep
  \<open>board\<close>, \<open>byKind\<close>, \<open>byColor\<close> and \<open>pieceCount\<close> in agreement. \<open>put_piece\<close>
  sets the square's bit, \<open>remove_piece\<close> and \<open>move_piece\<close> toggle the bits of the
  piece that stands on the board.
\<close>

definition put_piece :: "Piece \<Rightarrow> Square \<Rightarrow> Position \<Rightarrow> Position" where
  "put_piece pc s p = p\<lparr>
     board := (board p)(s := pc),
     byKind := (byKind p)(type_of pc := byKind p (type_of pc) OR square_bb s),
     byColor := (byColor p)(color_of pc := byColor p (color_of pc) OR square_bb s),
     pieceCount := (pieceCount p)(pc := pieceCount p pc + 1)\<rparr>"

definition remove_piece :: "Square \<Rightarrow> Position \<Rightarrow> Position" where
  "remove_piece s p = (let pc = board p s in p\<lparr>
     board := (board p)(s := NO_PIECE),
     byKind := (byKind p)(type_of pc := byKind p (type_of pc) XOR square_bb s),
     byColor := (byColor p)(color_of pc := byColor p (color_of pc) XOR square_bb s),
     pieceCount := (pieceCount p)(pc := pieceCount p pc - 1)\<rparr>)"

definition move_piece :: "Square \<Rightarrow> Square \<Rightarrow> Position \<Rightarrow> Position" where
  "move_piece f t p = (let pc = board p f; fromTo = square_bb f OR square_bb t in p\<lparr>
     board := ((board p)(f := NO_PIECE))(t := pc),
     byKind := (byKind p)(type_of pc := byKind p (type_of pc) XOR fromTo),
     byColor := (byColor p)(color_of pc := byColor p (color_of pc) XOR fromTo)\<rparr>)"

section \<open>Attackers, checkers and blockers\<close>

definition attackers_to :: "Env \<Rightarrow> Position \<Rightarrow> Square \<Rightarrow> Bitboard \<Rightarrow> Bitboard" where
  "attackers_to E p s occupied =
       (pawn_attacks_to_bb E WHITE s AND pieces_ct p WHITE PAWN)
    OR (pawn_attacks_to_bb E BLACK s AND pieces_ct p BLACK PAWN)
    OR (attacks_bb E KNIGHT_TO s occupied AND pieces_t p KNIGHT)
    OR (attacks_bb E ROOK s occupied AND pieces_t p ROOK)
    OR (attacks_bb E CANNON s occupied AND pieces_t p CANNON)
    OR (attacks_bb E BISHOP s occupied AND pieces_t p BISHOP)
    OR (pseudo_attacks_bb E ADVISOR s AND pieces_t p ADVISOR)
    OR (pseudo_attacks_bb E KING s AND pieces_t p KING)"

definition checkers_to :: "Env \<Rightarrow> Position \<Rightarrow> Color \<Rightarrow> Square \<Rightarrow> Bitboard \<Rightarrow> Bitboard" where
  "checkers_to E p c s occupied =
     (   (pawn_attacks_to_bb E c s AND pieces_t p PAWN)
      OR (attacks_bb E KNIGHT_TO s occupied AND pieces_t p KNIGHT)
      OR (attacks_bb E ROOK s occupied AND pieces_t p ROOK)
      OR (attacks_bb E CANNON s occupied AND pieces_t p CANNON)) AND pieces_c p c"

text \<open>
  \<^verbatim>\<open>Position::blockers_for_king(sliders, s, pinners)\<close>: the result is the pair of the
  returned blockers and of the bitboard written to \<^verbatim>\<open>pinners\<close>. \<open>sniper_between\<close>
  is the loop's \<^verbatim>\<open>b\<close> for one sniper, \<open>sniper_blocks\<close> the test of its \<^verbatim>\<open>if\<close>.
\<close>

definition snipers_of :: "Env \<Rightarrow> Position \<Rightarrow> Bitboard \<Rightarrow> Square \<Rightarrow> Bitboard" where
  "snipers_of E p sliders s =
     (  (pseudo_attacks_bb E ROOK s AND (pieces_t p ROOK OR pieces_t p CANNON OR pieces_t p KING))
      OR (pseudo_attacks_bb E KNIGHT s AND pieces_t p KNIGHT)) AND sliders"

definition sniper_between :: "Env \<Rightarrow> Position \<Rightarrow> Bitboard \<Rightarrow> Square \<Rightarrow> Square \<Rightarrow> Bitboard" where
  "sniper_between E p occupancy s sniperSq =
     (let isCannon = (type_of (piece_on p sniperSq) = CANNON)
      in between_bb E s sniperSq
           AND (if isCannon then pieces p XOR square_bb sniperSq else occupancy))"

definition sniper_blocks :: "Position \<Rightarrow> Square \<Rightarrow> Bitboard \<Rightarrow> bool" where
  "sniper_blocks p sniperSq b =
     (let isCannon = (type_of (piece_on p sniperSq) = CANNON)
      in b \<noteq> 0 \<and> ((\<not> isCannon \<and> \<not> more_than_one b) \<or> (isCannon \<and> popcount b = 2)))"

definition blockers_step ::
  "Env \<Rightarrow> Position \<Rightarrow> Bitboard \<Rightarrow> Square \<Rightarrow> Square \<Rightarrow> Bitboard \<times> Bitboard \<Rightarrow> Bitboard \<times> Bitboard" where
  "blockers_step E p occupancy s sniperSq acc =
     (let blockers = fst acc; pinners = snd acc;
          b = sniper_between E p occupancy s sniperSq
      in if sniper_blocks p sniperSq b
         then (blockers OR b,
               if b AND pieces_c p (color_of (piece_on p s)) \<noteq> 0
               then pinners OR square_bb sniperSq else pinners)
         else (blockers, pinners))"

definition blockers_for_king ::
  "Env \<Rightarrow> Position \<Rightarrow> Bitboard \<Rightarrow> Square \<Rightarrow> Bitboard \<times> Bitboard" where
  "blockers_for_king E p sliders s =
     (let snipers = snipers_of E p sliders s;
          occupancy = pieces p XOR (snipers AND NOT (pieces_t p CANNON))
      in bb_loop (blockers_step E p occupancy s) snipers (0, 0))"

section \<open>Chase detection\<close>

text \<open>
  \<^verbatim>\<open>Position::chased()\<close>, cut at the comments of the source into the pins it starts
  from, the lambda \<^verbatim>\<open>addChased\<close> (which updates the captured \<^verbatim>\<open>b\<close>), the direct
  attacks, the discovered attacks, the fake roots and the discovered checks.
  \<open>prev p\<close> is \<^verbatim>\<open>st->previous\<close>.
\<close>

definition prev :: "Position \<Rightarrow> StateInfo" where
  "prev p = hd (tl (st p))"

definition chased_pins :: "Env \<Rightarrow> Position \<Rightarrow> Bitboard" where
  "chased_pins E p =
     (let stm = sideToMove p;
          pins = blockers_for_king_c p stm;
          ourKing = square_of p KING stm;
          oppKing = square_of p KING (flip_color stm)
      in if file_bb E (file_of ourKing) AND file_bb E (file_of oppKing) \<noteq> 0
         then (let kingFilePieces = between_bb E ourKing oppKing XOR square_bb oppKing
               in if \<not> more_than_one (kingFilePieces AND pieces p)
                  then pins OR (kingFilePieces AND pieces_c p stm)
                  else pins)
         else pins)"

definition addChased_step ::
  "Env \<Rightarrow> Position \<Rightarrow> Bitboard \<Rightarrow> Square \<Rightarrow> Square \<Rightarrow> Bitboard \<Rightarrow> Bitboard" where
  "addChased_step E p pins attackerSq s b =
     (let stm = sideToMove p;
          roots = attackers_to E p s (pieces p XOR square_bb attackerSq)
                    AND pieces_c p stm AND NOT pins
      in if roots = 0
            \<or> (roots = pieces_ct p stm KING
                \<and> attacks_bb E ROOK (square_of p KING (flip_color stm))
                      (pieces p XOR square_bb attackerSq) AND square_bb s \<noteq> 0)
         then b OR square_bb s
         else b)"

definition addChased ::
  "Env \<Rightarrow> Position \<Rightarrow> Bitboard \<Rightarrow> Square \<Rightarrow> PieceType \<Rightarrow> Bitboard \<Rightarrow> Bitboard \<Rightarrow> Bitboard" where
  "addChased E p pins attackerSq attackerType attacks0 b0 =
     (if attacks0 AND NOT b0 \<noteq> 0
      then (let stm = sideToMove p;
                attacks = attacks0 AND NOT (pieces_ctt p stm KING PAWN
                            XOR (pieces_ct p stm PAWN AND HalfBB E (flip_color stm)));
                b = (if attackerType = KNIGHT \<or> attackerType = CANNON
                     then b0 OR (attacks AND pieces_ct p stm ROOK) else b0);
                b = (if attackerType = BISHOP \<or> attackerType = ADVISOR
                     then b OR (attacks AND pieces_cttt p stm ROOK CANNON KNIGHT) else b);
                attacks = (if attackerType = KNIGHT
                           then attacks AND (NOT (attacks_bb E KNIGHT_TO attackerSq (pieces p)) OR pins)
                           else attacks AND (NOT (pieces_ct p stm attackerType) OR pins))
            in bb_loop (addChased_step E p pins attackerSq) attacks b)
      else b0)"

definition chased_direct :: "Env \<Rightarrow> Position \<Rightarrow> Bitboard \<Rightarrow> Bitboard \<Rightarrow> Bitboard" where
  "chased_direct E p pins b =
     (let stm = sideToMove p;
          f = from_sq (move (cur p));
          t = to_sq (move (cur p));
          movedPiece = type_of (piece_on p t)
      in if movedPiece \<noteq> KING \<and> movedPiece \<noteq> PAWN
         then (let directAttacks = attacks_bb E movedPiece t (pieces p) AND pieces_c p stm;
                   directAttacks = (if movedPiece = ROOK \<or> movedPiece = CANNON
                                    then directAttacks AND NOT (line_bb E f t)
                                    else directAttacks)
               in addChased E p pins t movedPiece directAttacks b)
         else b)"

definition discovery_step ::
  "Env \<Rightarrow> Position \<Rightarrow> Bitboard \<Rightarrow> Square \<Rightarrow> Bitboard \<Rightarrow> Bitboard" where
  "discovery_step E p pins s b =
     (let stm = sideToMove p;
          f = from_sq (move (cur p));
          t = to_sq (move (cur p));
          discoveryPiece = type_of (piece_on p s);
          discoveries = pieces_c p stm
            AND attacks_bb E discoveryPiece s (pieces p)
            AND NOT (attacks_bb E discoveryPiece s
                       ((if captured_piece p \<noteq> NO_PIECE then pieces p
                         else pieces p XOR square_bb t) XOR square_bb f))
      in addChased E p pins s discoveryPiece discoveries b)"

definition chased_discovered :: "Env \<Rightarrow> Position \<Rightarrow> Bitboard \<Rightarrow> Bitboard \<Rightarrow> Bitboard" where
  "chased_discovered E p pins b =
     (let stm = sideToMove p;
          f = from_sq (move (cur p));
          t = to_sq (move (cur p));
          discoveryCandidates =
               (KnightMagics_mask E f AND pieces_ct p (flip_color stm) KNIGHT)
            OR (KnightToMagics_mask E f AND pieces_ct p (flip_color stm) BISHOP)
            OR (pseudo_attacks_bb E ROOK f AND pieces_ctt p (flip_color stm) CANNON ROOK)
            OR (attacks_bb E ROOK t (pieces p) AND pieces_ct p (flip_color stm) CANNON)
      in bb_loop (discovery_step E p pins) discoveryCandidates b)"

definition fake_root_step :: "Env \<Rightarrow> Position \<Rightarrow> Square \<Rightarrow> Bitboard \<Rightarrow> Bitboard" where
  "fake_root_step E p s2 b =
     (let stm = sideToMove p
      in if attackers_to E p s2 (pieces p) AND pieces_c p (flip_color stm)
              AND NOT (blockers_for_king_c p (flip_color stm)) \<noteq> 0
         then b OR square_bb s2
         else b)"

definition new_pin_step :: "Env \<Rightarrow> Position \<Rightarrow> Square \<Rightarrow> Bitboard \<Rightarrow> Bitboard" where
  "new_pin_step E p s b =
     (let stm = sideToMove p;
          pinnedPiece = type_of (piece_on p s);
          fakeRooted = pieces_c p stm
            AND NOT (pieces_ctt p stm KING PAWN
                      XOR (pieces_ct p stm PAWN AND HalfBB E (flip_color stm)));
          fakeRooted = (if pinnedPiece = PAWN
                        then fakeRooted AND pawn_attacks_bb E stm s
                        else fakeRooted AND attacks_bb E pinnedPiece s (pieces p))
      in bb_loop (fake_root_step E p) fakeRooted b)"

definition chased_fake_roots :: "Env \<Rightarrow> Position \<Rightarrow> Bitboard \<Rightarrow> Bitboard" where
  "chased_fake_roots E p b =
     (let stm = sideToMove p;
          newPins = blockersForKing (cur p) stm
            AND NOT (blockersForKing (prev p) stm) AND pieces_c p stm
      in bb_loop (new_pin_step E p) newPins b)"

definition recapture_step :: "Env \<Rightarrow> Position \<Rightarrow> Square \<Rightarrow> Square \<Rightarrow> Bitboard \<Rightarrow> Bitboard" where
  "recapture_step E p s s2 b =
     (let stm = sideToMove p
      in if attackers_to E p s2
                (pieces p XOR square_bb s XOR square_bb (square_of p KING stm))
              AND pieces_c p (flip_color stm) AND NOT (square_bb s) \<noteq> 0
         then b OR square_bb s2
         else b)"

definition new_discoverer_step :: "Env \<Rightarrow> Position \<Rightarrow> Square \<Rightarrow> Bitboard \<Rightarrow> Bitboard" where
  "new_discoverer_step E p s b0 =
     (let stm = sideToMove p;
          discoveryPiece = type_of (piece_on p s);
          discoveryAttacks = pieces_c p stm;
          discoveryAttacks = (if discoveryPiece = PAWN
                              then discoveryAttacks AND pawn_attacks_bb E (flip_color stm) s
                              else discoveryAttacks AND attacks_bb E discoveryPiece s (pieces p));
          b = b0 OR (discoveryAttacks AND NOT (pseudo_attacks_bb E KING (square_of p KING stm)));
          discoveryAttacks = discoveryAttacks AND pseudo_attacks_bb E KING (square_of p KING stm)
      in bb_loop (recapture_step E p s) discoveryAttacks b)"

definition chased_discovered_checks :: "Env \<Rightarrow> Position \<Rightarrow> Bitboard \<Rightarrow> Bitboard" where
  "chased_discovered_checks E p b =
     (let stm = sideToMove p;
          newDiscoverers = blockersForKing (cur p) stm
            AND NOT (blockersForKing (prev p) stm) AND pieces_c p (flip_color stm)
      in bb_loop (new_discoverer_step E p) newDiscoverers b)"

definition chased :: "Env \<Rightarrow> Position \<Rightarrow> Bitboard" where
  "chased E p =
     (if move (cur p) = MOVE_NONE then 0
      else (let pins = chased_pins E p;
                b = chased_direct E p pins 0;
                b = chased_discovered E p pins b
            in if 0 < pliesFromNull (cur p)
               then chased_discovered_checks E p (chased_fake_roots E p b)
               else b))"

section \<open>Check information and state set-up\<close>

text \<open>
  \<^verbatim>\<open>set_check_info(si)\<close> and \<^verbatim>\<open>set_state(si)\<close> are called with \<^verbatim>\<open>si == st\<close> by
  \<^verbatim>\<open>set\<close>, \<^verbatim>\<open>do_move\<close> and \<^verbatim>\<open>do_null_move\<close>; they are modelled on the head of
  \<open>st\<close>. (The one call on a copy is in the part of \<^verbatim>\<open>pos_is_ok\<close> behind
  \<^verbatim>\<open>if (Fast) return true\<close>.)
\<close>

definition set_check_info :: "Env \<Rightarrow> Position \<Rightarrow> Position" where
  "set_check_info E p0 =
     (let rw = blockers_for_king E p0 (pieces_c p0 BLACK) (square_of p0 KING WHITE);
          p = upd_st (\<lambda>si. si\<lparr>blockersForKing := (blockersForKing si)(WHITE := fst rw),
                              pinners := (pinners si)(BLACK := snd rw)\<rparr>) p0;
          rb = blockers_for_king E p (pieces_c p WHITE) (square_of p KING BLACK);
          p = upd_st (\<lambda>si. si\<lparr>blockersForKing := (blockersForKing si)(BLACK := fst rb),
                              pinners := (pinners si)(WHITE := snd rb)\<rparr>) p;
          ksq = square_of p KING (flip_color (sideToMove p));
          p = upd_st (\<lambda>si. si\<lparr>checkSquares := (checkSquares si)
                 (PAWN := pawn_attacks_to_bb E (sideToMove p) ksq,
                  KNIGHT := attacks_bb E KNIGHT_TO ksq (pieces p),
                  CANNON := attacks_bb E CANNON ksq (pieces p),
                  ROOK := attacks_bb E ROOK ksq (pieces p),
                  BISHOP := 0, ADVISOR := 0, KING := 0)\<rparr>) p
      in upd_st (\<lambda>si. si\<lparr>st_chased := chased E p\<rparr>) p)"

definition set_state_step :: "Env \<Rightarrow> Position \<Rightarrow> Square \<Rightarrow> StateInfo \<Rightarrow> StateInfo" where
  "set_state_step E p s si =
     (let pc = piece_on p s;
          si = si\<lparr>key := key si XOR Zobrist_psq E pc s\<rparr>
      in if type_of pc \<noteq> KING \<and> type_of pc \<noteq> PAWN
         then si\<lparr>nonPawnMaterial := (nonPawnMaterial si)
                  (color_of pc := nonPawnMaterial si (color_of pc) + PieceValueMg E pc)\<rparr>
         else si)"

definition set_state :: "Env \<Rightarrow> Position \<Rightarrow> Position" where
  "set_state E p0 =
     (let p = upd_st (\<lambda>si. si\<lparr>key := 0,
                 nonPawnMaterial := (\<lambda>c. VALUE_ZERO),
                 checkersBB := checkers_to E p0 (flip_color (sideToMove p0))
                                 (square_of p0 KING (sideToMove p0)) (pieces p0),
                 move := MOVE_NONE\<rparr>) p0;
          p = set_check_info E p;
          p = upd_st (bb_loop (set_state_step E p) (pieces p)) p
      in if sideToMove p = BLACK
         then upd_st (\<lambda>si. si\<lparr>key := key si XOR Zobrist_side E\<rparr>) p
         else p)"

section \<open>Legality\<close>

definition legal :: "Env \<Rightarrow> Position \<Rightarrow> Move \<Rightarrow> bool" where
  "legal E p m =
     (let us = sideToMove p;
          f = from_sq m;
          t = to_sq m;
          occupied = (pieces p XOR square_bb f) OR square_bb t;
          ksq = (if type_of (moved_piece p m) = KING then t else square_of p KING us)
      in if attacks_bb E ROOK ksq occupied AND pieces_ct p (flip_color us) KING \<noteq> 0
         then False
         else if type_of (piece_on p f) = KING
         then checkers_to E p (flip_color us) t occupied = 0
         else checkers_to E p (flip_color us) (square_of p KING us) occupied
                AND NOT (square_bb t) = 0)"

definition pseudo_legal :: "Env \<Rightarrow> Position \<Rightarrow> Move \<Rightarrow> bool" where
  "pseudo_legal E p m =
     (let us = sideToMove p;
          f = from_sq m;
          t = to_sq m;
          pc = moved_piece p m
      in if pc = NO_PIECE \<or> color_of pc \<noteq> us
         then False
         else if pieces_c p us AND square_bb t \<noteq> 0
         then False
         else if type_of pc = PAWN
         then pawn_attacks_bb E us f AND square_bb t \<noteq> 0
         else if type_of pc = CANNON \<and> \<not> capture p m
         then attacks_bb E ROOK f (pieces p) AND square_bb t \<noteq> 0
         else attacks_bb E (type_of pc) f (pieces p) AND square_bb t \<noteq> 0)"

definition gives_check :: "Env \<Rightarrow> Position \<Rightarrow> Move \<Rightarrow> bool" where
  "gives_check E p m =
     (let f = from_sq m;
          t = to_sq m;
          ksq = square_of p KING (flip_color (sideToMove p));
          pt = type_of (moved_piece p m)
      in if (if pt = CANNON
             then attacks_bb E CANNON t ((pieces p XOR square_bb f) OR square_bb t)
                    AND square_bb ksq \<noteq> 0
             else check_squares p pt AND square_bb t \<noteq> 0)
         then True
         else if check_squares p ROOK AND pieces_ct p (sideToMove p) CANNON \<noteq> 0
         then checkers_to E p (sideToMove p) ksq ((pieces p XOR square_bb f) OR square_bb t) \<noteq> 0
         else if blockers_for_king_c p (flip_color (sideToMove p)) AND square_bb f \<noteq> 0
                 \<and> \<not> aligned E f t ksq
         then True
         else False)"

section \<open>Making and unmaking moves\<close>

text \<open>
  \<^verbatim>\<open>do_move(m, newSt, givesCheck)\<close> takes the caller's record \<open>newSt\<close> with whatever it
  holds. \<open>copy_to_key\<close> is the \<^verbatim>\<open>memcpy\<close> of the fields before \<^verbatim>\<open>key\<close>, which the
  specification lists (\<^verbatim>\<open>checkSquares\<close>, \<^verbatim>\<open>blockersForKing\<close>, \<^verbatim>\<open>pinners\<close>,
  \<^verbatim>\<open>nonPawnMaterial\<close>, \<^verbatim>\<open>pliesFromNull\<close>, \<^verbatim>\<open>move\<close>; \<^verbatim>\<open>previous\<close> is the list);
  \<open>copy_to_accumulator\<close> is the one of \<^verbatim>\<open>do_null_move\<close>, every field but the
  accumulator and the dirty-piece record. Pushing \<open>newSt\<close> on \<open>st\<close> is
  \<^verbatim>\<open>newSt.previous = st; st = &newSt\<close>. The increment of \<open>nodes\<close> is the
  \<^verbatim>\<open>fetch_add\<close> on the thread's counter; the prefetch of \<^verbatim>\<open>do_null_move\<close> is a
  memory hint and has no counterpart.
\<close>

definition copy_to_key :: "StateInfo \<Rightarrow> StateInfo \<Rightarrow> StateInfo" where
  "copy_to_key old newSt = newSt\<lparr>
     nonPawnMaterial := nonPawnMaterial old,
     pliesFromNull := pliesFromNull old,
     blockersForKing := blockersForKing old,
     pinners := pinners old,
     checkSquares := checkSquares old,
     move := move old\<rparr>"

definition copy_to_accumulator :: "StateInfo \<Rightarrow> StateInfo \<Rightarrow> StateInfo" where
  "copy_to_accumulator old newSt = old\<lparr>
     accumulator_computed := accumulator_computed newSt,
     dirtyPiece := dirtyPiece newSt\<rparr>"

definition do_move_capture :: "Env \<Rightarrow> Move \<Rightarrow> Position \<times> Key \<Rightarrow> Position \<times> Key" where
  "do_move_capture E m pk =
     (let p = fst pk; k = snd pk;
          them = flip_color (sideToMove p);
          t = to_sq m;
          captured = piece_on p t
      in if captured \<noteq> NO_PIECE
         then (let capsq = t;
                   p = (if type_of captured \<noteq> PAWN
                        then upd_st (\<lambda>s. s\<lparr>nonPawnMaterial := (nonPawnMaterial s)
                               (them := nonPawnMaterial s them - PieceValueMg E captured)\<rparr>) p
                        else p);
                   p = upd_st (\<lambda>s. s\<lparr>dirtyPiece := (dirtyPiece s)\<lparr>
                          dirty_num := 2,
                          dp_piece := (dp_piece (dirtyPiece s))(1 := captured),
                          dp_from := (dp_from (dirtyPiece s))(1 := capsq),
                          dp_to := (dp_to (dirtyPiece s))(1 := SQ_NONE)\<rparr>\<rparr>) p;
                   p = remove_piece capsq p
               in (p, k XOR Zobrist_psq E captured capsq))
         else (p, k))"

definition do_move :: "Env \<Rightarrow> Move \<Rightarrow> StateInfo \<Rightarrow> bool \<Rightarrow> Position \<Rightarrow> Position" where
  "do_move E m newSt givesCheck p0 =
     (let p = p0\<lparr>nodes := nodes p0 + 1\<rparr>;
          k = key (cur p) XOR Zobrist_side E;
          p = p\<lparr>st := copy_to_key (cur p) newSt # st p\<rparr>;
          p = upd_st (\<lambda>s. s\<lparr>move := m\<rparr>) p;
          p = p\<lparr>gamePly := gamePly p + 1\<rparr>;
          p = upd_st (\<lambda>s. s\<lparr>pliesFromNull := pliesFromNull s + 1\<rparr>) p;
          p = upd_st (\<lambda>s. s\<lparr>accumulator_computed :=
                 (accumulator_computed s)(WHITE := False, BLACK := False)\<rparr>) p;
          p = upd_st (\<lambda>s. s\<lparr>dirtyPiece := (dirtyPiece s)\<lparr>dirty_num := 1\<rparr>\<rparr>) p;
          us = sideToMove p;
          them = flip_color us;
          f = from_sq m;
          t = to_sq m;
          pc = piece_on p f;
          captured = piece_on p t;
          pk = do_move_capture E m (p, k);
          p = fst pk;
          k = snd pk XOR Zobrist_psq E pc f XOR Zobrist_psq E pc t;
          p = upd_st (\<lambda>s. s\<lparr>dirtyPiece := (dirtyPiece s)\<lparr>
                 dp_piece := (dp_piece (dirtyPiece s))(0 := pc),
                 dp_from := (dp_from (dirtyPiece s))(0 := f),
                 dp_to := (dp_to (dirtyPiece s))(0 := t)\<rparr>\<rparr>) p;
          p = move_piece f t p;
          p = upd_st (\<lambda>s. s\<lparr>capturedPiece := captured\<rparr>) p;
          p = upd_st (\<lambda>s. s\<lparr>key := k\<rparr>) p;
          p = upd_st (\<lambda>s. s\<lparr>checkersBB :=
                 (if givesCheck
                  then checkers_to E p us (square_of p KING them) (pieces p)
                  else 0)\<rparr>) p;
          p = p\<lparr>sideToMove := flip_color (sideToMove p)\<rparr>
      in set_check_info E p)"

definition undo_move :: "Move \<Rightarrow> Position \<Rightarrow> Position" where
  "undo_move m p0 =
     (let p = p0\<lparr>sideToMove := flip_color (sideToMove p0)\<rparr>;
          f = from_sq m;
          t = to_sq m;
          p = move_piece t f p;
          p = (if capturedPiece (cur p) \<noteq> NO_PIECE
               then (let capsq = t in put_piece (capturedPiece (cur p)) capsq p)
               else p);
          p = p\<lparr>st := tl (st p)\<rparr>
      in p\<lparr>gamePly := gamePly p - 1\<rparr>)"

definition do_null_move :: "Env \<Rightarrow> StateInfo \<Rightarrow> Position \<Rightarrow> Position" where
  "do_null_move E newSt p0 =
     (let p = p0\<lparr>st := copy_to_accumulator (cur p0) newSt # st p0\<rparr>;
          p = upd_st (\<lambda>s. s\<lparr>dirtyPiece := (dirtyPiece s)\<lparr>
                 dirty_num := 0,
                 dp_piece := (dp_piece (dirtyPiece s))(0 := NO_PIECE)\<rparr>\<rparr>) p;
          p = upd_st (\<lambda>s. s\<lparr>accumulator_computed :=
                 (accumulator_computed s)(WHITE := False, BLACK := False)\<rparr>) p;
          p = upd_st (\<lambda>s. s\<lparr>key := key s XOR Zobrist_side E\<rparr>) p;
          p = upd_st (\<lambda>s. s\<lparr>pliesFromNull := 0\<rparr>) p;
          p = p\<lparr>sideToMove := flip_color (sideToMove p)\<rparr>
      in set_check_info E p)"

definition undo_null_move :: "Position \<Rightarrow> Position" where
  "undo_null_move p = p\<lparr>st := tl (st p), sideToMove := flip_color (sideToMove p)\<rparr>"

definition key_after :: "Env \<Rightarrow> Position \<Rightarrow> Move \<Rightarrow> Key" where
  "key_after E p m =
     (let f = from_sq m;
          t = to_sq m;
          pc = piece_on p f;
          captured = piece_on p t;
          k = key (cur p) XOR Zobrist_side E;
          k = (if captured \<noteq> NO_PIECE then k XOR Zobrist_psq E captured t else k)
      in k XOR Zobrist_psq E pc t XOR Zobrist_psq E pc f)"

section \<open>Repetition\<close>

text \<open>
  \<^verbatim>\<open>Position::is_repeated(result, ply)\<close>. A pointer into the StateInfo chain is the
  number of \<^verbatim>\<open>previous\<close> links from \<^verbatim>\<open>st\<close>, that is an index into \<open>st p\<close>;
  \<open>deref\<close> reads the record it points to and is \<open>None\<close> behind the end of the
  chain, where the source would dereference a null pointer. The function returns
  \<open>None\<close> in that case, and otherwise the pair of its truth value and of the value
  of the out-parameter \<^verbatim>\<open>result\<close> (unchanged when no repetition is found).
  \<open>repetition_result\<close> is the nested conditional assigned to \<^verbatim>\<open>result\<close>,
  \<open>is_repeated_loop\<close> the \<^verbatim>\<open>for\<close> loop with the variables it updates.
\<close>

definition deref :: "StateInfo list \<Rightarrow> nat \<Rightarrow> StateInfo option" where
  "deref ss k = (if k < length ss then Some (ss ! k) else None)"

definition repetition_result ::
  "Env \<Rightarrow> int \<Rightarrow> bool \<Rightarrow> bool \<Rightarrow> Bitboard \<Rightarrow> Bitboard \<Rightarrow> Value" where
  "repetition_result E ply perpetualThem perpetualUs chaseThem chaseUs =
     (if perpetualThem \<or> perpetualUs
      then (if \<not> perpetualUs then VALUE_MATE E - ply
            else if \<not> perpetualThem then - VALUE_MATE E + ply
            else VALUE_DRAW E)
      else if chaseThem \<noteq> 0 \<or> chaseUs \<noteq> 0
      then (if chaseUs = 0 then VALUE_MATE E - ply
            else if chaseThem = 0 then - VALUE_MATE E + ply
            else VALUE_DRAW E)
      else VALUE_DRAW E)"

function is_repeated_loop ::
  "Env \<Rightarrow> StateInfo list \<Rightarrow> Value \<Rightarrow> int \<Rightarrow> int \<Rightarrow> nat \<Rightarrow> int \<Rightarrow> bool \<Rightarrow> bool
     \<Rightarrow> Bitboard \<Rightarrow> Bitboard \<Rightarrow> (bool \<times> Value) option" where
  "is_repeated_loop E ss result ply i stp cnt perpetualThem perpetualUs chaseThem chaseUs =
     (if i \<le> pliesFromNull (hd ss)
      then (case deref ss (stp + 2) of
              None \<Rightarrow> None
            | Some s2 \<Rightarrow>
               (let s1 = ss ! (stp + 1);
                    chaseThem' = (if i \<noteq> pliesFromNull (hd ss)
                                  then undo_move_board E chaseThem (move s1) AND st_chased s2
                                  else chaseThem);
                    perpetualThem' = (perpetualThem \<and> checkersBB s2 \<noteq> 0);
                    cnt' = (if key s2 = key (hd ss) then cnt + 1 else cnt)
                in if key s2 = key (hd ss) \<and> cnt' = (if ply > i then 1 else 2)
                   then Some (True,
                          repetition_result E ply perpetualThem' perpetualUs chaseThem' chaseUs)
                   else if i + 1 \<le> pliesFromNull (hd ss)
                   then (case deref ss (stp + 3) of
                           None \<Rightarrow> None
                         | Some s3 \<Rightarrow>
                             is_repeated_loop E ss result ply (i + 2) (stp + 2) cnt'
                               perpetualThem' (perpetualUs \<and> checkersBB s3 \<noteq> 0) chaseThem'
                               (undo_move_board E chaseUs (move s2) AND st_chased s3))
                   else is_repeated_loop E ss result ply (i + 2) (stp + 2) cnt'
                          perpetualThem' perpetualUs chaseThem' chaseUs))
      else Some (False, result))"
  by pat_completeness auto
termination
  by (relation "measure (\<lambda>(E, ss, result, ply, i, rest). nat (pliesFromNull (hd ss) + 1 - i))") auto

declare is_repeated_loop.simps [simp del]

definition is_repeated :: "Env \<Rightarrow> Position \<Rightarrow> Value \<Rightarrow> int \<Rightarrow> (bool \<times> Value) option" where
  "is_repeated E p result ply =
     (case st p of
        [] \<Rightarrow> None
      | s0 # _ \<Rightarrow>
          if 4 \<le> pliesFromNull s0
          then (case deref (st p) 3 of
                  None \<Rightarrow> None
                | Some s3 \<Rightarrow>
                   (let s1 = st p ! 1; s2 = st p ! 2
                    in is_repeated_loop E (st p) result ply 4 2 0
                         (checkersBB s0 \<noteq> 0 \<and> checkersBB s2 \<noteq> 0)
                         (checkersBB s1 \<noteq> 0 \<and> checkersBB s3 \<noteq> 0)
                         (undo_move_board E (st_chased s0) (move s1) AND st_chased s2)
                         (undo_move_board E (st_chased s1) (move s2) AND st_chased s3)))
          else Some (False, result))"

section \<open>Static exchange evaluation\<close>

text \<open>
  \<^verbatim>\<open>Position::see_ge(m, threshold)\<close>. \<open>SeeState\<close> holds the variables of the
  \<^verbatim>\<open>while (true)\<close> loop. One pass of the loop is \<open>see_step\<close>: \<open>Inl r\<close> when
  the pass leaves the loop and the function returns \<open>r\<close> (a \<^verbatim>\<open>break\<close> returns
  \<^verbatim>\<open>bool(res)\<close>, the king's branch returns directly), \<open>Inr s\<close> when the loop goes
  on with the variables \<open>s\<close>. \<open>see_stm_attackers\<close> is \<^verbatim>\<open>stmAttackers\<close> after the
  two tests that break (the attackers of the side to move that are still on the
  board, without the blockers of its king while a pinner is on the board),
  \<open>see_least_attacker\<close> the kind the \<^verbatim>\<open>if\<close> chain finds first (\<open>None\<close>: the
  \<^verbatim>\<open>else\<close> branch of the king), \<open>see_value\<close> its value, and \<open>see_capture\<close> the
  update of the branch of that kind.
\<close>

record SeeState =
  see_stm :: Color
  see_attackers :: Bitboard
  see_occupied :: Bitboard
  see_nonCannons :: Bitboard
  see_cannons :: Bitboard
  see_swap :: int
  see_res :: int

definition see_capture ::
  "Env \<Rightarrow> Position \<Rightarrow> Square \<Rightarrow> PieceType \<Rightarrow> Bitboard \<Rightarrow> SeeState \<Rightarrow> SeeState" where
  "see_capture E p t pt bb s =
     (let occupied = see_occupied s XOR least_significant_square_bb bb;
          s = s\<lparr>see_occupied := occupied\<rparr>
      in if pt = PAWN \<or> pt = ROOK
         then (let nonCannons = see_nonCannons s OR (attacks_bb E ROOK t occupied AND pieces_t p ROOK);
                   cannons = attacks_bb E CANNON t occupied
               in s\<lparr>see_nonCannons := nonCannons, see_cannons := cannons,
                     see_attackers := nonCannons OR cannons\<rparr>)
         else if pt = ADVISOR
         then (let nonCannons = see_nonCannons s
                      OR (attacks_bb E KNIGHT_TO t occupied AND pieces_t p KNIGHT)
               in s\<lparr>see_nonCannons := nonCannons,
                     see_attackers := nonCannons OR see_cannons s\<rparr>)
         else if pt = CANNON
         then (let cannons = attacks_bb E CANNON t occupied
               in s\<lparr>see_cannons := cannons, see_attackers := see_nonCannons s OR cannons\<rparr>)
         else s)"

definition see_value :: "Env \<Rightarrow> PieceType \<Rightarrow> Value" where
  "see_value E pt =
     (if pt = PAWN then PawnValueMg E
      else if pt = BISHOP then BishopValueMg E
      else if pt = ADVISOR then AdvisorValueMg E
      else if pt = CANNON then CannonValueMg E
      else if pt = KNIGHT then KnightValueMg E
      else RookValueMg E)"

definition see_least_attacker :: "Position \<Rightarrow> Bitboard \<Rightarrow> PieceType option" where
  "see_least_attacker p stmAttackers =
     (if stmAttackers AND pieces_t p PAWN \<noteq> 0 then Some PAWN
      else if stmAttackers AND pieces_t p BISHOP \<noteq> 0 then Some BISHOP
      else if stmAttackers AND pieces_t p ADVISOR \<noteq> 0 then Some ADVISOR
      else if stmAttackers AND pieces_t p CANNON \<noteq> 0 then Some CANNON
      else if stmAttackers AND pieces_t p KNIGHT \<noteq> 0 then Some KNIGHT
      else if stmAttackers AND pieces_t p ROOK \<noteq> 0 then Some ROOK
      else None)"

definition see_stm_attackers :: "Position \<Rightarrow> SeeState \<Rightarrow> Bitboard" where
  "see_stm_attackers p s =
     (let stm = flip_color (see_stm s);
          attackers = see_attackers s AND see_occupied s;
          stmAttackers = attackers AND pieces_c p stm
      in if stmAttackers = 0 then 0
         else if pinners_c p (flip_color stm) AND see_occupied s \<noteq> 0
         then stmAttackers AND NOT (blockers_for_king_c p stm)
         else stmAttackers)"

definition see_step :: "Env \<Rightarrow> Position \<Rightarrow> Square \<Rightarrow> SeeState \<Rightarrow> bool + SeeState" where
  "see_step E p t s0 =
     (let stm = flip_color (see_stm s0);
          attackers = see_attackers s0 AND see_occupied s0;
          s = s0\<lparr>see_stm := stm, see_attackers := attackers\<rparr>;
          stmAttackers = see_stm_attackers p s0
      in if stmAttackers = 0 then Inl (see_res s \<noteq> 0)
         else (let res = see_res s XOR 1;
                   s = s\<lparr>see_res := res\<rparr>
               in case see_least_attacker p stmAttackers of
                    Some pt \<Rightarrow>
                      (let swap = see_value E pt - see_swap s;
                           s = s\<lparr>see_swap := swap\<rparr>
                       in if swap < res then Inl (res \<noteq> 0)
                          else Inr (see_capture E p t pt (stmAttackers AND pieces_t p pt) s))
                  | None \<Rightarrow>
                      Inl (if attackers AND NOT (pieces_c p stm) \<noteq> 0
                           then res XOR 1 \<noteq> 0 else res \<noteq> 0)))"

lemma xor_vacates: "bit b s \<Longrightarrow> b XOR square_bb s = b AND NOT (square_bb s)"
  by (rule bit_eqI) (auto simp: bit_simps bit_square_bb)

lemma popcount_clear:
  assumes "bit b s"
  shows "popcount (b XOR square_bb s) < popcount b"
proof -
  have "s \<in> set (squares_of b)"
    using assms by (simp add: set_squares_of)
  then have "length (filter (\<lambda>n. n \<noteq> s) (squares_of b)) < length (squares_of b)"
    by (intro length_filter_less [of s]) auto
  then show ?thesis
    using xor_vacates [OF assms] by (simp add: popcount_def squares_of_pop)
qed

lemma see_stm_attackers_occupied:
  "bit (see_stm_attackers p s) n \<Longrightarrow> bit (see_occupied s) n"
  by (auto simp: see_stm_attackers_def Let_def bit_simps split: if_splits)

lemma see_capture_occupied:
  "see_occupied (see_capture E p t pt bb s) = see_occupied s XOR least_significant_square_bb bb"
  by (simp add: see_capture_def Let_def)

lemma see_step_decreases:
  assumes "see_step E p t s = Inr s'"
  shows "popcount (see_occupied s') < popcount (see_occupied s)"
proof -
  from assms obtain pt where
    la: "see_least_attacker p (see_stm_attackers p s) = Some pt"
    and s': "s' = see_capture E p t pt (see_stm_attackers p s AND pieces_t p pt)
        (s\<lparr>see_stm := flip_color (see_stm s), see_attackers := see_attackers s AND see_occupied s,
           see_res := see_res s XOR 1, see_swap := see_value E pt - see_swap s\<rparr>)"
    by (auto simp: see_step_def Let_def split: if_splits option.splits)
  from la have nz: "see_stm_attackers p s AND pieces_t p pt \<noteq> 0"
    by (auto simp: see_least_attacker_def split: if_splits)
  have "bit (see_stm_attackers p s AND pieces_t p pt) (lsb (see_stm_attackers p s AND pieces_t p pt))"
    using nz by (rule bit_lsb)
  then have "bit (see_occupied s) (lsb (see_stm_attackers p s AND pieces_t p pt))"
    by (auto simp: bit_simps intro: see_stm_attackers_occupied)
  then show ?thesis
    unfolding s' see_capture_occupied least_significant_square_bb_def
    using popcount_clear by simp
qed

function see_loop :: "Env \<Rightarrow> Position \<Rightarrow> Square \<Rightarrow> SeeState \<Rightarrow> bool" where
  "see_loop E p t s = (case see_step E p t s of Inl r \<Rightarrow> r | Inr s' \<Rightarrow> see_loop E p t s')"
  by pat_completeness auto
termination
  by (relation "measure (\<lambda>(E, p, t, s). popcount (see_occupied s))")
    (auto simp: see_step_decreases)

declare see_loop.simps [simp del]

definition see_init :: "Env \<Rightarrow> Position \<Rightarrow> Move \<Rightarrow> int \<Rightarrow> SeeState" where
  "see_init E p m swap =
     (let f = from_sq m; t = to_sq m;
          occupied = pieces p XOR square_bb f XOR square_bb t;
          stm = sideToMove p;
          attackers = attackers_to E p t occupied;
          attackers = (if attackers AND pieces_ct p stm KING \<noteq> 0
                       then attackers OR (attacks_bb E ROOK t (occupied AND NOT (pieces_t p ROOK))
                                            AND pieces_ct p (flip_color stm) KING)
                       else attackers);
          attackers = (if attackers AND pieces_ct p (flip_color stm) KING \<noteq> 0
                       then attackers OR (attacks_bb E ROOK t (occupied AND NOT (pieces_t p ROOK))
                                            AND pieces_ct p stm KING)
                       else attackers)
      in \<lparr>see_stm = stm, see_attackers = attackers, see_occupied = occupied,
          see_nonCannons = attackers AND NOT (pieces_t p CANNON),
          see_cannons = attackers AND pieces_t p CANNON,
          see_swap = swap, see_res = 1\<rparr>)"

definition see_ge :: "Env \<Rightarrow> Position \<Rightarrow> Move \<Rightarrow> Value \<Rightarrow> bool" where
  "see_ge E p m threshold =
     (let f = from_sq m; t = to_sq m;
          swap = PieceValueMg E (piece_on p t) - threshold
      in if swap < 0 then False
         else (let swap = PieceValueMg E (piece_on p f) - swap
               in if swap \<le> 0 then True
                  else see_loop E p t (see_init E p m swap)))"

section \<open>Zeroed records\<close>

text \<open>
  \<^verbatim>\<open>Position::set\<close> starts from \<^verbatim>\<open>memset(this, 0, ...)\<close> and \<^verbatim>\<open>memset(si, 0, ...)\<close>:
  every field zero, that is no piece, empty bitboards, White to move, \<open>MOVE_NONE\<close>.
\<close>

definition zero_DirtyPiece :: DirtyPiece where
  "zero_DirtyPiece = \<lparr>dirty_num = 0, dp_piece = (\<lambda>i. NO_PIECE), dp_from = (\<lambda>i. 0), dp_to = (\<lambda>i. 0)\<rparr>"

definition zero_StateInfo :: StateInfo where
  "zero_StateInfo = \<lparr>
     nonPawnMaterial = (\<lambda>c. 0), pliesFromNull = 0, key = 0, checkersBB = 0,
     blockersForKing = (\<lambda>c. 0), pinners = (\<lambda>c. 0), checkSquares = (\<lambda>pt. 0),
     capturedPiece = NO_PIECE, st_chased = 0, move = MOVE_NONE,
     accumulator_computed = (\<lambda>c. False), dirtyPiece = zero_DirtyPiece\<rparr>"

definition zero_Position :: "StateInfo \<Rightarrow> Position" where
  "zero_Position si = \<lparr>
     board = (\<lambda>s. NO_PIECE), byKind = (\<lambda>pt. 0), byColor = (\<lambda>c. 0), pieceCount = (\<lambda>pc. 0),
     sideToMove = WHITE, gamePly = 0, st = [si], nodes = 0\<rparr>"

section \<open>A concrete board geometry\<close>

text \<open>
  Modelled from the spec (section 4.1, the geometry oracle; \<^verbatim>\<open>bitboard.h\<close> and
  \<^verbatim>\<open>bitboard.cpp\<close> are absent): one instance \<open>xq\<close> of the tables, used to evaluate
  the functions on concrete positions. Rooks slide to the first occupied square,
  cannons attack behind exactly one screen, the knight is blocked by its leg, the
  bishop by its eye and by the river, advisor and king stay in the palace, pawns
  step forward and, across the river, sideways. \<open>between_bb a b\<close> holds the squares
  strictly between two squares of a file or rank (the leg, for a knight's jump)
  and \<open>b\<close> itself, as the source's \<^verbatim>\<open>between_bb(ourKing, oppKing) ^ square_bb(oppKing)\<close>
  expects. \<open>undo_move_board b m\<close> moves the bit of \<open>m\<close>'s to-square, when
  it is set, back to the from-square. The Zobrist numbers and the piece values are
  arbitrary fixed numbers.
  No theorem about the source's functions depends on this instance: they are
  proved for every \<open>Env\<close>.
\<close>

definition xq_shift :: "int \<times> int \<Rightarrow> Square \<Rightarrow> Square option" where
  "xq_shift d s =
     (let f = int (file_of s) + fst d; r = int (rank_of s) + snd d
      in if s < 90 \<and> 0 \<le> f \<and> f < 9 \<and> 0 \<le> r \<and> r < 10 then Some (nat (r * 9 + f)) else None)"

fun xq_ray :: "nat \<Rightarrow> int \<times> int \<Rightarrow> Square \<Rightarrow> Square list" where
  "xq_ray 0 d s = []"
| "xq_ray (Suc n) d s = (case xq_shift d s of None \<Rightarrow> [] | Some s' \<Rightarrow> s' # xq_ray n d s')"

fun xq_slide :: "Bitboard \<Rightarrow> Square list \<Rightarrow> Square list" where
  "xq_slide occ [] = []"
| "xq_slide occ (s # ss) = s # (if bit occ s then [] else xq_slide occ ss)"

fun xq_hop :: "Bitboard \<Rightarrow> Square list \<Rightarrow> Square list" where
  "xq_hop occ [] = []"
| "xq_hop occ (s # ss) = (if bit occ s then xq_slide occ ss else xq_hop occ ss)"

definition bb_of :: "Square list \<Rightarrow> Bitboard" where
  "bb_of ss = fold (\<lambda>s b. b OR square_bb s) ss 0"

definition xq_orth :: "(int \<times> int) list" where
  "xq_orth = [(0, 1), (0, -1), (1, 0), (-1, 0)]"

definition xq_diag :: "(int \<times> int) list" where
  "xq_diag = [(1, 1), (1, -1), (-1, 1), (-1, -1)]"

definition xq_targets :: "Square \<Rightarrow> (int \<times> int) list \<Rightarrow> Square list" where
  "xq_targets s ds = concat (map (\<lambda>d. case xq_shift d s of None \<Rightarrow> [] | Some s' \<Rightarrow> [s']) ds)"

definition xq_palace :: "Square \<Rightarrow> bool" where
  "xq_palace s = (3 \<le> file_of s \<and> file_of s \<le> 5 \<and> (rank_of s \<le> 2 \<or> (7 \<le> rank_of s \<and> rank_of s \<le> 9)))"

definition xq_knight :: "Square \<Rightarrow> Bitboard \<Rightarrow> Square list" where
  "xq_knight s occ = concat (map (\<lambda>d. case xq_shift d s of None \<Rightarrow> []
       | Some leg \<Rightarrow> if bit occ leg then []
           else xq_targets s [(2 * fst d + snd d, 2 * snd d + fst d), (2 * fst d - snd d, 2 * snd d - fst d)]) xq_orth)"

definition xq_knight_to :: "Square \<Rightarrow> Bitboard \<Rightarrow> Square list" where
  "xq_knight_to s occ = concat (map (\<lambda>d. case xq_shift d s of None \<Rightarrow> []
       | Some leg \<Rightarrow> if bit occ leg then []
           else xq_targets s [(2 * fst d, snd d), (fst d, 2 * snd d)]) xq_diag)"

definition xq_bishop :: "Square \<Rightarrow> Bitboard \<Rightarrow> Square list" where
  "xq_bishop s occ = concat (map (\<lambda>d. case xq_shift d s of None \<Rightarrow> []
       | Some eye \<Rightarrow> if bit occ eye then []
           else filter (\<lambda>t. (rank_of t < 5) = (rank_of s < 5)) (xq_targets s [(2 * fst d, 2 * snd d)])) xq_diag)"

definition xq_attacks :: "PieceType \<Rightarrow> Square \<Rightarrow> Bitboard \<Rightarrow> Bitboard" where
  "xq_attacks pt s occ = bb_of
     (case pt of
        ROOK \<Rightarrow> concat (map (\<lambda>d. xq_slide occ (xq_ray 10 d s)) xq_orth)
      | CANNON \<Rightarrow> concat (map (\<lambda>d. xq_hop occ (xq_ray 10 d s)) xq_orth)
      | KNIGHT \<Rightarrow> xq_knight s occ
      | KNIGHT_TO \<Rightarrow> xq_knight_to s occ
      | BISHOP \<Rightarrow> xq_bishop s occ
      | ADVISOR \<Rightarrow> filter xq_palace (xq_targets s xq_diag)
      | KING \<Rightarrow> filter xq_palace (xq_targets s xq_orth)
      | _ \<Rightarrow> [])"

definition xq_pawn_attacks :: "Color \<Rightarrow> Square \<Rightarrow> Bitboard" where
  "xq_pawn_attacks c s = bb_of
     (xq_targets s [(0, if c = WHITE then 1 else -1)]
      @ (if (c = WHITE) = (5 \<le> rank_of s) then xq_targets s [(1, 0), (-1, 0)] else []))"

definition xq_pawn_attacks_to :: "Color \<Rightarrow> Square \<Rightarrow> Bitboard" where
  "xq_pawn_attacks_to c s = bb_of
     (xq_targets s [(0, if c = WHITE then -1 else 1)]
      @ (if (c = WHITE) = (5 \<le> rank_of s) then xq_targets s [(1, 0), (-1, 0)] else []))"

definition xq_dir :: "Square \<Rightarrow> Square \<Rightarrow> int \<times> int" where
  "xq_dir a b = (sgn (int (file_of b) - int (file_of a)), sgn (int (rank_of b) - int (rank_of a)))"

definition xq_rook_line :: "Square \<Rightarrow> Square \<Rightarrow> bool" where
  "xq_rook_line a b = (a < 90 \<and> b < 90 \<and> a \<noteq> b \<and> (file_of a = file_of b \<or> rank_of a = rank_of b))"

definition xq_between :: "Square \<Rightarrow> Square \<Rightarrow> Bitboard" where
  "xq_between a b = bb_of
     ((if xq_rook_line a b then takeWhile (\<lambda>s. s \<noteq> b) (xq_ray 10 (xq_dir a b) a)
       else if b \<in> set (xq_knight a 0) then xq_targets a [xq_dir a b]
       else []) @ [b])"

definition xq_line :: "Square \<Rightarrow> Square \<Rightarrow> Bitboard" where
  "xq_line a b = bb_of
     (if xq_rook_line a b
      then a # xq_ray 10 (xq_dir a b) a @ xq_ray 10 (xq_dir b a) a
      else [])"

definition xq_piece_no :: "Piece \<Rightarrow> nat" where
  "xq_piece_no pc = (case color_of pc of WHITE \<Rightarrow> 0 | BLACK \<Rightarrow> 8) +
     (case type_of pc of NO_PIECE_TYPE \<Rightarrow> 0 | ROOK \<Rightarrow> 1 | ADVISOR \<Rightarrow> 2 | CANNON \<Rightarrow> 3 | PAWN \<Rightarrow> 4
        | KNIGHT \<Rightarrow> 5 | BISHOP \<Rightarrow> 6 | KING \<Rightarrow> 7 | KNIGHT_TO \<Rightarrow> 8)"

definition xq_value :: "PieceType \<Rightarrow> Value" where
  "xq_value pt = (case pt of ROOK \<Rightarrow> 1200 | CANNON \<Rightarrow> 600 | KNIGHT \<Rightarrow> 550 | BISHOP \<Rightarrow> 200
      | ADVISOR \<Rightarrow> 180 | PAWN \<Rightarrow> 100 | _ \<Rightarrow> 0)"

definition xq :: Env where
  "xq = \<lparr>
     attacks_bb = xq_attacks,
     pseudo_attacks_bb = (\<lambda>pt s. xq_attacks pt s 0),
     pawn_attacks_bb = xq_pawn_attacks,
     pawn_attacks_to_bb = xq_pawn_attacks_to,
     between_bb = xq_between,
     line_bb = xq_line,
     aligned = (\<lambda>a b c. xq_line a b AND square_bb c \<noteq> 0),
     file_bb = (\<lambda>f. bb_of (map (\<lambda>r. make_square f r) [0..<10])),
     HalfBB = (\<lambda>c. bb_of (case c of WHITE \<Rightarrow> [0..<45] | BLACK \<Rightarrow> [45..<90])),
     KnightMagics_mask = (\<lambda>s. bb_of (xq_targets s xq_orth)),
     KnightToMagics_mask = (\<lambda>s. bb_of (xq_targets s xq_diag)),
     undo_move_board = (\<lambda>b m. if b AND square_bb (to_sq m) \<noteq> 0
                                then (b XOR square_bb (to_sq m)) OR square_bb (from_sq m)
                                else b),
     Zobrist_psq = (\<lambda>pc s. word_of_nat (xq_piece_no pc * 128 + s + 1) * 0x9E3779B97F4A7C15),
     Zobrist_side = 0xD1B54A32D192ED03,
     PieceValueMg = (\<lambda>pc. xq_value (type_of pc)),
     PawnValueMg = xq_value PAWN,
     BishopValueMg = xq_value BISHOP,
     AdvisorValueMg = xq_value ADVISOR,
     CannonValueMg = xq_value CANNON,
     KnightValueMg = xq_value KNIGHT,
     RookValueMg = xq_value ROOK,
     VALUE_MATE = 32000,
     VALUE_DRAW = 0\<rparr>"

text \<open>
  For the proofs about this geometry: \<open>xq_back d\<close> is the direction opposite to
  \<open>d\<close>, \<open>xq_steps k d s\<close> the square \<open>k\<close> steps from \<open>s\<close> in direction \<open>d\<close>,
  \<open>occ_at\<close> says that the square \<open>m\<close> steps away is occupied, \<open>clear_run\<close> that
  no square before the \<open>K\<close>-th is, \<open>one_screen\<close> that exactly one is.
\<close>

definition xq_back :: "int \<times> int \<Rightarrow> int \<times> int" where
  "xq_back d = (- fst d, - snd d)"





text \<open>A small position: kings on d0 and e9, a white rook on a0, a black pawn on a3.\<close>

definition W_KING :: Piece where "W_KING = make_piece WHITE KING"
definition B_KING :: Piece where "B_KING = make_piece BLACK KING"

definition rook_takes_pawn :: Position where
  "rook_takes_pawn =
     put_piece (make_piece BLACK PAWN) 27 (put_piece (make_piece WHITE ROOK) 0
       (put_piece B_KING 85 (put_piece W_KING 3 (zero_Position zero_StateInfo))))"

section \<open>Agreement of the board with the bitboards\<close>

text \<open>
  The invariant of the specification's data model, "\<^verbatim>\<open>board\<close> agrees with all
  bitboards", at one square: a piece that stands on \<open>s\<close> has the bit of \<open>s\<close> set
  in the bitboards of its kind and of its colour. \<open>board_part\<close> collects the four
  board fields of a position.
\<close>

definition agrees_at :: "Position \<Rightarrow> Square \<Rightarrow> bool" where
  "agrees_at p s =
     (board p s \<noteq> NO_PIECE \<longrightarrow>
        bit (byKind p (type_of (board p s))) s \<and> bit (byColor p (color_of (board p s))) s)"

definition board_part :: "Position \<Rightarrow> (Square \<Rightarrow> Piece) \<times> (PieceType \<Rightarrow> Bitboard) \<times> (Color \<Rightarrow> Bitboard) \<times> (Piece \<Rightarrow> int)" where
  "board_part p = (board p, byKind p, byColor p, pieceCount p)"

section \<open>The claims' own words\<close>

text \<open>
  Definitions that follow the words of the specification, to be compared with the
  functions of the source. \<open>pseudo_legal_spec\<close>: the from-square holds a piece of
  the side to move, the destination is not in that side's occupancy, and the
  mover's geometry permits the step (a pawn by \<open>pawn_attacks_bb\<close>, a cannon that
  does not capture by the rook's attacks, every other case by \<open>attacks_bb\<close> of the
  mover's kind).
\<close>

definition geometry_permits :: "Env \<Rightarrow> Position \<Rightarrow> Move \<Rightarrow> bool" where
  "geometry_permits E p m =
     (let pc = piece_on p (from_sq m) in
      if type_of pc = PAWN
      then bit (pawn_attacks_bb E (sideToMove p) (from_sq m)) (to_sq m)
      else if type_of pc = CANNON \<and> piece_on p (to_sq m) = NO_PIECE
      then bit (attacks_bb E ROOK (from_sq m) (pieces p)) (to_sq m)
      else bit (attacks_bb E (type_of pc) (from_sq m) (pieces p)) (to_sq m))"

definition pseudo_legal_spec :: "Env \<Rightarrow> Position \<Rightarrow> Move \<Rightarrow> bool" where
  "pseudo_legal_spec E p m =
     (piece_on p (from_sq m) \<noteq> NO_PIECE
      \<and> color_of (piece_on p (from_sq m)) = sideToMove p
      \<and> \<not> bit (pieces_c p (sideToMove p)) (to_sq m)
      \<and> geometry_permits E p m)"

text \<open>
  An attack, stated from the attacker: \<open>attack_set E c pt x occ\<close> are the squares
  a piece of colour \<open>c\<close> and kind \<open>pt\<close> on \<open>x\<close> attacks when the occupied squares
  are \<open>occ\<close> (the tables of section 4.1 of the specification, read from the
  piece's square), and \<open>attackers_of E p occ c kinds s\<close> are the squares of the
  pieces of colour \<open>c\<close> and of one of the \<open>kinds\<close> that attack \<open>s\<close>.
  \<open>coherent E\<close> says of the tables what their descriptions promise: rook and
  cannon attacks are mutual, \<open>KNIGHT_TO\<close> is the inverse of \<open>KNIGHT\<close> and
  \<open>pawn_attacks_to_bb\<close> the inverse of \<open>pawn_attacks_bb\<close>.

  \<open>legal_claim kinds\<close>: on the occupancy after the move (the from-square vacated,
  the to-square occupied) (a) the kings do not face each other on a clear rook
  line, the own king standing on the to-square when it is the mover, (b) a moving
  king's to-square is not attacked by an enemy piece of one of the \<open>kinds\<close>,
  (c) otherwise the own king is not attacked by such a piece that does not stand
  on the to-square. The claim speaks of every kind (\<open>piece_kinds\<close>); the pieces
  that can give check are the \<open>checking_kinds\<close>.
\<close>

definition attack_set :: "Env \<Rightarrow> Color \<Rightarrow> PieceType \<Rightarrow> Square \<Rightarrow> Bitboard \<Rightarrow> Bitboard" where
  "attack_set E c pt x occ =
     (if pt = PAWN then pawn_attacks_bb E c x
      else if pt = ADVISOR \<or> pt = KING then pseudo_attacks_bb E pt x
      else attacks_bb E pt x occ)"

definition piece_kinds :: "PieceType list" where
  "piece_kinds = [ROOK, ADVISOR, CANNON, PAWN, KNIGHT, BISHOP, KING]"


definition attackers_of ::
  "Env \<Rightarrow> Position \<Rightarrow> Bitboard \<Rightarrow> Color \<Rightarrow> PieceType list \<Rightarrow> Square \<Rightarrow> Square list" where
  "attackers_of E p occ c kinds s =
     concat (map (\<lambda>pt. filter (\<lambda>x. bit (attack_set E c pt x occ) s)
                          (squares_of (pieces_ct p c pt))) kinds)"






text \<open>
  The blocker rule of \<open>blockers_for_king\<close>. \<open>ray_pieces\<close> are the pieces on the
  ray between the target square and a sniper, \<open>counted_ray\<close> the pieces the source
  counts: for a cannon all of them, for another sniper those that are not
  themselves non-cannon snipers. \<open>ray_blocks\<close> is the count the rule asks for, and
  \<open>blockers_claim ray\<close> states the rule for a result \<open>r\<close> of
  \<open>blockers_for_king\<close>, the pieces of a sniper's ray being \<open>ray sq\<close>: the
  blockers are the pieces of the rays that hold the asked number of pieces, and the
  pinners are the snipers of such a ray that holds a piece of the colour of the
  piece on \<open>s\<close>.
\<close>

definition is_cannon :: "Position \<Rightarrow> Square \<Rightarrow> bool" where
  "is_cannon p sq = (type_of (piece_on p sq) = CANNON)"

definition ray_pieces :: "Env \<Rightarrow> Position \<Rightarrow> Square \<Rightarrow> Square \<Rightarrow> Bitboard" where
  "ray_pieces E p s sq = between_bb E s sq AND pieces p AND NOT (square_bb sq)"

definition counted_ray :: "Env \<Rightarrow> Position \<Rightarrow> Bitboard \<Rightarrow> Square \<Rightarrow> Square \<Rightarrow> Bitboard" where
  "counted_ray E p sliders s sq =
     (if is_cannon p sq then ray_pieces E p s sq
      else between_bb E s sq AND pieces p
             AND NOT (snipers_of E p sliders s AND NOT (pieces_t p CANNON)))"

definition ray_blocks :: "Position \<Rightarrow> Square \<Rightarrow> Bitboard \<Rightarrow> bool" where
  "ray_blocks p sq r = (popcount r = (if is_cannon p sq then 2 else 1))"

definition blockers_claim ::
  "(Square \<Rightarrow> Bitboard) \<Rightarrow> Env \<Rightarrow> Position \<Rightarrow> Bitboard \<Rightarrow> Square \<Rightarrow> Bitboard \<times> Bitboard \<Rightarrow> bool" where
  "blockers_claim ray E p sliders s r =
     ((\<forall>n. bit (fst r) n \<longleftrightarrow>
          (\<exists>sq. bit (snipers_of E p sliders s) sq \<and> ray_blocks p sq (ray sq) \<and> bit (ray sq) n))
      \<and> (\<forall>sq. bit (snd r) sq \<longleftrightarrow>
          (bit (snipers_of E p sliders s) sq \<and> ray_blocks p sq (ray sq)
           \<and> ray sq AND pieces_c p (color_of (piece_on p s)) \<noteq> 0)))"

definition sniper_kinds_on_board :: "Position \<Rightarrow> bool" where
  "sniper_kinds_on_board p =
     ((pieces_t p ROOK OR pieces_t p CANNON OR pieces_t p KING OR pieces_t p KNIGHT)
        AND NOT (pieces p) = 0)"

definition two_rooks_on_file :: Position where
  "two_rooks_on_file =
     put_piece B_KING 84 (put_piece (make_piece BLACK ROOK) 85
       (put_piece (make_piece WHITE PAWN) 49 (put_piece (make_piece BLACK ROOK) 22
         (put_piece W_KING 4 (zero_Position zero_StateInfo)))))"

text \<open>
  The repetition rule. With \<open>ss\<close> the StateInfo chain, \<open>key_match ss h\<close> says that
  the state \<open>2 h\<close> plies back has the key of the current state, \<open>matches ss h\<close>
  counts such states from four plies back to \<open>2 h\<close> plies back, and
  \<open>first_hit ss ply h\<close> says that the state \<open>2 h\<close> plies back is the first, within
  \<^verbatim>\<open>pliesFromNull\<close>, at which the count reaches 1 (when \<open>2 h < ply\<close>, strictly after
  the root) or 2. \<open>perpetual_them\<close> and \<open>perpetual_us\<close>: every state an even
  (odd) number of plies back, up to the hit, has checkers. \<open>chase_them\<close> and
  \<open>chase_us\<close>: the chased sets of those states, each carried back over the
  moves by \<open>undo_move_board\<close> and intersected with the next (the set of the state
  at \<^verbatim>\<open>pliesFromNull\<close> itself is left out, as in the source). \<open>claimed_result\<close>
  is the table of the specification read from its first row down,
  \<open>amended_result\<close> the same table with a chase counted for a side only when the
  other side does not chase as well.
\<close>

definition key_match :: "StateInfo list \<Rightarrow> nat \<Rightarrow> bool" where
  "key_match ss h = (key (ss ! (2 * h)) = key (ss ! 0))"

definition matches :: "StateInfo list \<Rightarrow> nat \<Rightarrow> nat" where
  "matches ss h = length (filter (key_match ss) [2..<Suc h])"

definition hit :: "StateInfo list \<Rightarrow> int \<Rightarrow> nat \<Rightarrow> bool" where
  "hit ss ply h = (key_match ss h \<and> int (matches ss h) = (if ply > 2 * int h then 1 else 2))"

definition first_hit :: "StateInfo list \<Rightarrow> int \<Rightarrow> nat \<Rightarrow> bool" where
  "first_hit ss ply h =
     (2 \<le> h \<and> 2 * int h \<le> pliesFromNull (hd ss) \<and> hit ss ply h
      \<and> (\<forall>g \<in> {2..<h}. \<not> hit ss ply g))"

definition perpetual_them :: "StateInfo list \<Rightarrow> nat \<Rightarrow> bool" where
  "perpetual_them ss h = (\<forall>g \<in> {0..h}. checkersBB (ss ! (2 * g)) \<noteq> 0)"

definition perpetual_us :: "StateInfo list \<Rightarrow> nat \<Rightarrow> bool" where
  "perpetual_us ss h = (\<forall>g \<in> {0..<h}. checkersBB (ss ! (2 * g + 1)) \<noteq> 0)"

fun chase_line :: "Env \<Rightarrow> StateInfo list \<Rightarrow> nat \<Rightarrow> nat \<Rightarrow> Bitboard" where
  "chase_line E ss j 0 = st_chased (ss ! j)"
| "chase_line E ss j (Suc n) =
     undo_move_board E (chase_line E ss j n) (move (ss ! (j + 2 * n + 1)))
       AND st_chased (ss ! (j + 2 * n + 2))"

definition chase_them :: "Env \<Rightarrow> StateInfo list \<Rightarrow> nat \<Rightarrow> Bitboard" where
  "chase_them E ss h =
     chase_line E ss 0 (if 2 * int h = pliesFromNull (hd ss) then h - 1 else h)"

definition chase_us :: "Env \<Rightarrow> StateInfo list \<Rightarrow> nat \<Rightarrow> Bitboard" where
  "chase_us E ss h = chase_line E ss 1 (h - 1)"

definition claimed_result :: "Env \<Rightarrow> int \<Rightarrow> bool \<Rightarrow> bool \<Rightarrow> bool \<Rightarrow> bool \<Rightarrow> Value" where
  "claimed_result E ply checkThem checkUs chaseByThem chaseByUs =
     (if checkThem \<and> checkUs then VALUE_DRAW E
      else if checkThem then VALUE_MATE E - ply
      else if checkUs then - VALUE_MATE E + ply
      else if chaseByThem then VALUE_MATE E - ply
      else if chaseByUs then - VALUE_MATE E + ply
      else VALUE_DRAW E)"

definition amended_result :: "Env \<Rightarrow> int \<Rightarrow> bool \<Rightarrow> bool \<Rightarrow> bool \<Rightarrow> bool \<Rightarrow> Value" where
  "amended_result E ply checkThem checkUs chaseByThem chaseByUs =
     (if checkThem \<and> checkUs then VALUE_DRAW E
      else if checkThem then VALUE_MATE E - ply
      else if checkUs then - VALUE_MATE E + ply
      else if chaseByThem \<and> \<not> chaseByUs then VALUE_MATE E - ply
      else if chaseByUs \<and> \<not> chaseByThem then - VALUE_MATE E + ply
      else VALUE_DRAW E)"

definition repetition_claim ::
  "(Env \<Rightarrow> int \<Rightarrow> bool \<Rightarrow> bool \<Rightarrow> bool \<Rightarrow> bool \<Rightarrow> Value) \<Rightarrow> Env \<Rightarrow> Position \<Rightarrow> Value \<Rightarrow> int \<Rightarrow> nat \<Rightarrow> bool" where
  "repetition_claim table E p result ply h =
     (is_repeated E p result ply
        = Some (True, table E ply (perpetual_them (st p) h) (perpetual_us (st p) h)
                        (chase_them E (st p) h \<noteq> 0) (chase_us E (st p) h \<noteq> 0)))"

definition chain_complete :: "Position \<Rightarrow> bool" where
  "chain_complete p = (pliesFromNull (hd (st p)) < int (length (st p)))"

definition threefold :: "StateInfo list \<Rightarrow> nat \<Rightarrow> nat \<Rightarrow> bool" where
  "threefold ss m1 m2 =
     (2 \<le> m1 \<and> m1 < m2 \<and> 2 * int m2 \<le> pliesFromNull (hd ss)
      \<and> key_match ss m1 \<and> key_match ss m2)"

text \<open>
  The plies the claim calls intermediate: with the key of the current state
  (\<open>ss ! 0\<close>) found again \<open>2 m1\<close> and \<open>2 m2\<close> plies back, the states strictly
  between the current one and the earliest occurrence, the middle occurrence left
  out. \<open>no_chases\<close> speaks of every earlier state back to and including the
  earliest occurrence.
\<close>

definition intermediate :: "nat \<Rightarrow> nat \<Rightarrow> nat list" where
  "intermediate m1 m2 = filter (\<lambda>k. k \<noteq> 2 * m1) [1..<2 * m2]"

definition no_checks :: "StateInfo list \<Rightarrow> nat \<Rightarrow> nat \<Rightarrow> bool" where
  "no_checks ss m1 m2 = (\<forall>k \<in> set (intermediate m1 m2). checkersBB (ss ! k) = 0)"

definition no_chases :: "StateInfo list \<Rightarrow> nat \<Rightarrow> bool" where
  "no_chases ss m2 = (\<forall>k \<in> {1..2 * m2}. st_chased (ss ! k) = 0)"

definition we_check_only :: "StateInfo list \<Rightarrow> nat \<Rightarrow> nat \<Rightarrow> bool" where
  "we_check_only ss m1 m2 =
     (\<forall>k \<in> set (intermediate m1 m2). (checkersBB (ss ! k) \<noteq> 0) = odd k)"

definition ply_state :: "int \<Rightarrow> Key \<Rightarrow> Bitboard \<Rightarrow> Bitboard \<Rightarrow> Move \<Rightarrow> StateInfo" where
  "ply_state n k ck ch m =
     zero_StateInfo\<lparr>pliesFromNull := n, key := k, checkersBB := ck, st_chased := ch, move := m\<rparr>"

definition on_stack :: "StateInfo list \<Rightarrow> Position" where
  "on_stack ss = (zero_Position zero_StateInfo)\<lparr>st := ss\<rparr>"

definition mutual_chase :: Position where
  "mutual_chase = on_stack
     [ply_state 4 7 0 (square_bb 20) (make_move 80 89),
      ply_state 3 11 0 (square_bb 70) (make_move 9 0),
      ply_state 2 13 0 (square_bb 20) (make_move 89 80),
      ply_state 1 17 0 (square_bb 70) (make_move 0 9),
      ply_state 0 7 0 0 MOVE_NONE]"

definition eight_plies :: "(nat \<Rightarrow> Bitboard) \<Rightarrow> (nat \<Rightarrow> Bitboard) \<Rightarrow> Position" where
  "eight_plies ck ch = on_stack
     [ply_state 8 7 (ck 0) (ch 0) (make_move 80 89),
      ply_state 7 11 (ck 1) (ch 1) (make_move 9 0),
      ply_state 6 13 (ck 2) (ch 2) (make_move 89 80),
      ply_state 5 17 (ck 3) (ch 3) (make_move 0 9),
      ply_state 4 7 (ck 4) (ch 4) (make_move 80 89),
      ply_state 3 11 (ck 5) (ch 5) (make_move 9 0),
      ply_state 2 13 (ck 6) (ch 6) (make_move 89 80),
      ply_state 1 17 (ck 7) (ch 7) (make_move 0 9),
      ply_state 0 7 0 0 MOVE_NONE]"

definition quiet_cycle :: Position where
  "quiet_cycle = eight_plies (\<lambda>k. 0) (\<lambda>k. 0)"

definition chase_cycle :: Position where
  "chase_cycle = eight_plies (\<lambda>k. 0) (\<lambda>k. if even k then square_bb 20 else 0)"

definition check_cycle :: Position where
  "check_cycle = eight_plies (\<lambda>k. if odd k then square_bb 30 else 0) (\<lambda>k. 0)"

text \<open>
  Nine plies since the last null move: the eight quiet plies of \<open>quiet_cycle\<close>
  after a ninth, older one on which a check was given.
\<close>

definition old_check :: Position where
  "old_check = on_stack
     [ply_state 9 7 0 0 (make_move 80 89),
      ply_state 8 11 0 0 (make_move 9 0),
      ply_state 7 13 0 0 (make_move 89 80),
      ply_state 6 17 0 0 (make_move 0 9),
      ply_state 5 7 0 0 (make_move 80 89),
      ply_state 4 11 0 0 (make_move 9 0),
      ply_state 3 13 0 0 (make_move 89 80),
      ply_state 2 17 0 0 (make_move 0 9),
      ply_state 1 7 0 0 (make_move 80 89),
      ply_state 0 19 (square_bb 30) 0 MOVE_NONE]"

text \<open>
  \<open>within b m\<close>: every square of the bitboard \<open>b\<close> is a square of \<open>m\<close>.
\<close>

definition within :: "Bitboard \<Rightarrow> Bitboard \<Rightarrow> bool" where
  "within b m = (b AND NOT m = 0)"

text \<open>
  A position after White's rook went from a0 to a3, where it attacks an undefended
  black knight on c3 (kings on d0 and e9, Black to move).
\<close>

definition rook_chases_knight :: Position where
  "rook_chases_knight =
     (put_piece (make_piece BLACK KNIGHT) 29 (put_piece (make_piece WHITE ROOK) 27
       (put_piece B_KING 85 (put_piece W_KING 3 (zero_Position zero_StateInfo)))))
     \<lparr>sideToMove := BLACK,
      st := [zero_StateInfo\<lparr>move := make_move 0 27, pliesFromNull := 1\<rparr>, zero_StateInfo]\<rparr>"

text \<open>
  The states of the exchange loop that \<open>see_ge m threshold\<close> goes through: the
  first one, when neither early return is taken, and each state a pass of the loop
  continues with.
\<close>

inductive see_reach :: "Env \<Rightarrow> Position \<Rightarrow> Move \<Rightarrow> Value \<Rightarrow> SeeState \<Rightarrow> bool"
  for E p m threshold where
  start: "0 \<le> PieceValueMg E (piece_on p (to_sq m)) - threshold \<Longrightarrow>
          0 < PieceValueMg E (piece_on p (from_sq m))
                - (PieceValueMg E (piece_on p (to_sq m)) - threshold) \<Longrightarrow>
          see_reach E p m threshold
            (see_init E p m (PieceValueMg E (piece_on p (from_sq m))
                - (PieceValueMg E (piece_on p (to_sq m)) - threshold)))"
| step: "see_reach E p m threshold s \<Longrightarrow> see_step E p (to_sq m) s = Inr s' \<Longrightarrow>
         see_reach E p m threshold s'"




text \<open>
  \<^verbatim>\<open>3k5/9/9/4p4/R3n4/9/4P4/4N4/9/5K3 w\<close>: a white rook on a5 can take a black
  knight on e5 that a black pawn on e6 protects; on the file below e5 stand a
  white pawn (e3) and, behind it, a white knight (e2). \<open>after_recapture\<close> are the
  variables of the exchange loop of \<open>see_ge (a5e5) (-600)\<close> after its first pass,
  in which the black pawn has retaken on e5.
\<close>

definition phantom_knight :: Position where
  "phantom_knight =
     put_piece B_KING 84 (put_piece (make_piece BLACK PAWN) 58
       (put_piece (make_piece BLACK KNIGHT) 49 (put_piece (make_piece WHITE ROOK) 45
         (put_piece (make_piece WHITE PAWN) 31 (put_piece (make_piece WHITE KNIGHT) 22
           (put_piece W_KING 5 (zero_Position zero_StateInfo)))))))"


definition after_recapture :: SeeState where
  "after_recapture = \<lparr>see_stm = BLACK, see_attackers = 288265560527994880,
     see_occupied = 19342813113834068946976800, see_nonCannons = 288265560523800576,
     see_cannons = 4194304, see_swap = 50, see_res = 0\<rparr>"

section \<open>Properties\<close>

subsection \<open>Field lemmas\<close>

lemma upd_st_fields [simp]:
  "board (upd_st f p) = board p" "byKind (upd_st f p) = byKind p"
  "byColor (upd_st f p) = byColor p" "pieceCount (upd_st f p) = pieceCount p"
  "sideToMove (upd_st f p) = sideToMove p" "gamePly (upd_st f p) = gamePly p"
  "nodes (upd_st f p) = nodes p" "st (upd_st f p) = f (hd (st p)) # tl (st p)"
  by (simp_all add: upd_st_def)

lemma cur_upd_st [simp]: "cur (upd_st f p) = f (cur p)"
  by (simp add: cur_def)

lemma piece_on_upd_st [simp]: "piece_on (upd_st f p) s = piece_on p s"
  by (simp add: piece_on_def)

lemma set_check_info_fields [simp]:
  "board (set_check_info E p) = board p" "byKind (set_check_info E p) = byKind p"
  "byColor (set_check_info E p) = byColor p" "pieceCount (set_check_info E p) = pieceCount p"
  "sideToMove (set_check_info E p) = sideToMove p" "gamePly (set_check_info E p) = gamePly p"
  "nodes (set_check_info E p) = nodes p" "tl (st (set_check_info E p)) = tl (st p)"
  by (simp_all add: set_check_info_def Let_def)

lemma set_check_info_cur [simp]:
  "key (cur (set_check_info E p)) = key (cur p)"
  "capturedPiece (cur (set_check_info E p)) = capturedPiece (cur p)"
  by (simp_all add: set_check_info_def Let_def)

lemma cur_simps [simp]:
  "cur (p\<lparr>sideToMove := c\<rparr>) = cur p" "cur (p\<lparr>gamePly := g\<rparr>) = cur p"
  "cur (p\<lparr>nodes := n\<rparr>) = cur p" "cur (p\<lparr>st := x # xs\<rparr>) = x"
  by (simp_all add: cur_def)

lemma cur_board_prims [simp]:
  "cur (move_piece f t p) = cur p" "cur (remove_piece s p) = cur p" "cur (put_piece pc s p) = cur p"
  by (simp_all add: cur_def move_piece_def remove_piece_def put_piece_def Let_def)

lemma do_move_capture_key:
  "key (cur (fst (do_move_capture E m (p, k)))) = key (cur p)"
  by (simp add: do_move_capture_def Let_def)

lemma do_move_capture_snd:
  "snd (do_move_capture E m (p, k)) =
     (if piece_on p (to_sq m) \<noteq> NO_PIECE then k XOR Zobrist_psq E (piece_on p (to_sq m)) (to_sq m) else k)"
  by (simp add: do_move_capture_def Let_def)

lemma piece_on_simps [simp]:
  "piece_on (p\<lparr>nodes := n\<rparr>) s = piece_on p s"
  "piece_on (p\<lparr>gamePly := g\<rparr>) s = piece_on p s"
  "piece_on (p\<lparr>st := x\<rparr>) s = piece_on p s"
  by (simp_all add: piece_on_def)

lemma xor_twice: "(x XOR a) XOR a = (x :: Bitboard)"
  by (simp add: xor.assoc)

lemma xor_or_restore: "bit x s \<Longrightarrow> (x XOR square_bb s) OR square_bb s = (x :: Bitboard)"
  by (rule bit_eqI) (auto simp: bit_simps bit_square_bb dest: bit_imp_le_length)

lemma xor_or_restore2: "bit x s \<Longrightarrow> square_bb s OR (x XOR square_bb s) = (x :: Bitboard)"
  by (rule bit_eqI) (auto simp: bit_simps bit_square_bb dest: bit_imp_le_length)

lemma xor_xor_or_restore:
  "bit x s \<Longrightarrow> (((x XOR square_bb s) XOR a) XOR a) OR square_bb s = (x :: Bitboard)"
  by (simp add: xor_twice xor_or_restore)

lemma undo_board_quiet:
  assumes "f \<noteq> t" "board p t = NO_PIECE"
  shows "board_part (move_piece t f (move_piece f t p)) = board_part p"
  using assms
  by (auto simp: board_part_def move_piece_def Let_def fun_eq_iff xor_twice or.commute)

lemma undo_board_capture:
  assumes "f \<noteq> t" "bit (byKind p (type_of (board p t))) t" "bit (byColor p (color_of (board p t))) t"
  shows "board_part (put_piece (board p t) t (move_piece t f (move_piece f t (remove_piece t p)))) = board_part p"
  using assms
  by (auto simp: board_part_def move_piece_def remove_piece_def put_piece_def Let_def fun_eq_iff xor_twice xor_or_restore xor_or_restore2 or.commute)


lemma board_part_simps [simp]:
  "board_part (upd_st g p) = board_part p"
  "board_part (p\<lparr>st := x\<rparr>) = board_part p"
  "board_part (p\<lparr>nodes := n\<rparr>) = board_part p"
  "board_part (p\<lparr>gamePly := gp\<rparr>) = board_part p"
  "board_part (p\<lparr>sideToMove := c\<rparr>) = board_part p"
  "board_part (set_check_info E p) = board_part p"
  by (simp_all add: board_part_def)

lemma prims_commute [simp]:
  "move_piece f t (upd_st g p) = upd_st g (move_piece f t p)"
  "move_piece f t (p\<lparr>st := x\<rparr>) = (move_piece f t p)\<lparr>st := x\<rparr>"
  "move_piece f t (p\<lparr>nodes := n\<rparr>) = (move_piece f t p)\<lparr>nodes := n\<rparr>"
  "move_piece f t (p\<lparr>gamePly := gp\<rparr>) = (move_piece f t p)\<lparr>gamePly := gp\<rparr>"
  "move_piece f t (p\<lparr>sideToMove := c\<rparr>) = (move_piece f t p)\<lparr>sideToMove := c\<rparr>"
  "remove_piece s (upd_st g p) = upd_st g (remove_piece s p)"
  "remove_piece s (p\<lparr>st := x\<rparr>) = (remove_piece s p)\<lparr>st := x\<rparr>"
  "remove_piece s (p\<lparr>nodes := n\<rparr>) = (remove_piece s p)\<lparr>nodes := n\<rparr>"
  "remove_piece s (p\<lparr>gamePly := gp\<rparr>) = (remove_piece s p)\<lparr>gamePly := gp\<rparr>"
  "remove_piece s (p\<lparr>sideToMove := c\<rparr>) = (remove_piece s p)\<lparr>sideToMove := c\<rparr>"
  "put_piece pc s (upd_st g p) = upd_st g (put_piece pc s p)"
  "put_piece pc s (p\<lparr>st := x\<rparr>) = (put_piece pc s p)\<lparr>st := x\<rparr>"
  "put_piece pc s (p\<lparr>nodes := n\<rparr>) = (put_piece pc s p)\<lparr>nodes := n\<rparr>"
  "put_piece pc s (p\<lparr>gamePly := gp\<rparr>) = (put_piece pc s p)\<lparr>gamePly := gp\<rparr>"
  "put_piece pc s (p\<lparr>sideToMove := c\<rparr>) = (put_piece pc s p)\<lparr>sideToMove := c\<rparr>"
  by (simp_all add: move_piece_def remove_piece_def put_piece_def upd_st_def Let_def)

lemma prims_fields [simp]:
  "sideToMove (move_piece f t p) = sideToMove p" "gamePly (move_piece f t p) = gamePly p"
  "st (move_piece f t p) = st p" "nodes (move_piece f t p) = nodes p"
  "sideToMove (remove_piece s p) = sideToMove p" "gamePly (remove_piece s p) = gamePly p"
  "st (remove_piece s p) = st p" "nodes (remove_piece s p) = nodes p"
  "sideToMove (put_piece pc s p) = sideToMove p" "gamePly (put_piece pc s p) = gamePly p"
  "st (put_piece pc s p) = st p" "nodes (put_piece pc s p) = nodes p"
  by (simp_all add: move_piece_def remove_piece_def put_piece_def Let_def)

lemma do_move_capture_board:
  "board_part (fst (do_move_capture E m (p, k))) =
     board_part (if piece_on p (to_sq m) \<noteq> NO_PIECE then remove_piece (to_sq m) p else p)"
  by (simp add: do_move_capture_def Let_def)

lemma do_move_board:
  "board_part (do_move E m newSt gc p) =
     board_part (move_piece (from_sq m) (to_sq m)
       (if piece_on p (to_sq m) \<noteq> NO_PIECE then remove_piece (to_sq m) p else p))"
  by (simp add: do_move_def Let_def do_move_capture_def)

lemma do_move_rest:
  "sideToMove (do_move E m newSt gc p) = flip_color (sideToMove p)"
  "gamePly (do_move E m newSt gc p) = gamePly p + 1"
  "tl (st (do_move E m newSt gc p)) = st p"
  "capturedPiece (cur (do_move E m newSt gc p)) = piece_on p (to_sq m)"
  "nodes (do_move E m newSt gc p) = nodes p + 1"
  by (simp_all add: do_move_def Let_def do_move_capture_def)


lemma flip_flip [simp]: "flip_color (flip_color c) = c"
  by (cases c) simp_all

lemma pseudo_legal_from_to:
  assumes "pseudo_legal E p m" "agrees_at p (from_sq m)"
  shows "from_sq m \<noteq> to_sq m"
proof
  assume e: "from_sq m = to_sq m"
  from assms(1) have pc: "board p (from_sq m) \<noteq> NO_PIECE"
    and col: "color_of (board p (from_sq m)) = sideToMove p"
    and nf: "pieces_c p (sideToMove p) AND square_bb (to_sq m) = 0"
    by (auto simp: pseudo_legal_def Let_def moved_piece_def piece_on_def split: if_splits)
  from assms(2) pc col have b: "bit (byColor p (sideToMove p)) (from_sq m)"
    by (auto simp: agrees_at_def)
  then have "bit (pieces_c p (sideToMove p) AND square_bb (to_sq m)) (from_sq m)"
    using e by (auto simp: pieces_c_def bit_simps bit_square_bb dest: bit_imp_le_length)
  with nf show False
    by simp
qed

lemma move_piece_cong:
  "board_part q = board_part q' \<Longrightarrow> board_part (move_piece f t q) = board_part (move_piece f t q')"
  by (auto simp: board_part_def move_piece_def Let_def)

lemma put_piece_cong:
  "board_part q = board_part q' \<Longrightarrow> board_part (put_piece pc s q) = board_part (put_piece pc s q')"
  by (auto simp: board_part_def put_piece_def)

lemma undo_move_board_part:
  "board_part (undo_move m q) =
     board_part (if capturedPiece (cur q) \<noteq> NO_PIECE
                 then put_piece (capturedPiece (cur q)) (to_sq m) (move_piece (to_sq m) (from_sq m) q)
                 else move_piece (to_sq m) (from_sq m) q)"
  by (simp add: undo_move_def Let_def)

lemma undo_move_rest:
  "sideToMove (undo_move m q) = flip_color (sideToMove q)"
  "gamePly (undo_move m q) = gamePly q - 1"
  "st (undo_move m q) = tl (st q)"
  by (simp_all add: undo_move_def Let_def)

lemma undo_move_reads_head:
  "undo_move m (q\<lparr>st := s # rest\<rparr>) = (undo_move m (q\<lparr>st := [s]\<rparr>))\<lparr>st := rest\<rparr>"
  by (simp add: undo_move_def Let_def)

subsection \<open>The key after a move\<close>

text \<open>
  Claim C5. For every move \<open>m\<close> (the legal ones among them), \<open>key_after m\<close> is
  exactly the Zobrist key that \<open>do_move m newSt givesCheck\<close> stores in \<^verbatim>\<open>st->key\<close>
  of the resulting position, whatever the caller's \<open>newSt\<close> holds and whether or
  not the move gives check. \<open>key_after\<close> is a function of the position to a key
  alone: it returns no position and no StateInfo, so it modifies neither.
\<close>

theorem key_after_do_move:
  "key (cur (do_move E m newSt givesCheck p)) = key_after E p m"
  by (simp add: do_move_def key_after_def Let_def do_move_capture_snd
      xor.assoc xor.commute xor.left_commute)

subsection \<open>Undoing a move\<close>

text \<open>
  Claim C1. For every pseudo-legal move \<open>m\<close> of a position whose board agrees with its
  bitboards on the two squares of the move (every legal move of a position of the
  engine is one), and for every caller-supplied StateInfo \<open>newSt\<close>, \<open>do_move\<close>
  followed by \<open>undo_move\<close> restores \<open>board\<close>, \<open>byKind\<close>, \<open>byColor\<close>,
  \<open>pieceCount\<close>, \<open>sideToMove\<close>, \<open>gamePly\<close> and the StateInfo stack \<open>st\<close> to
  their values before the move. The last conjunct says that \<open>undo_move\<close> reads only
  the current StateInfo: on any position its result does not depend on the records
  behind the head of \<open>st\<close>, which it only pops.
\<close>

theorem do_move_undo_move:
  assumes "pseudo_legal E p m" "agrees_at p (from_sq m)" "agrees_at p (to_sq m)"
  shows "board (undo_move m (do_move E m newSt givesCheck p)) = board p
       \<and> byKind (undo_move m (do_move E m newSt givesCheck p)) = byKind p
       \<and> byColor (undo_move m (do_move E m newSt givesCheck p)) = byColor p
       \<and> pieceCount (undo_move m (do_move E m newSt givesCheck p)) = pieceCount p
       \<and> sideToMove (undo_move m (do_move E m newSt givesCheck p)) = sideToMove p
       \<and> gamePly (undo_move m (do_move E m newSt givesCheck p)) = gamePly p
       \<and> st (undo_move m (do_move E m newSt givesCheck p)) = st p
       \<and> (\<forall>q s rest. undo_move m (q\<lparr>st := s # rest\<rparr>) = (undo_move m (q\<lparr>st := [s]\<rparr>))\<lparr>st := rest\<rparr>)"
proof -
  let ?d = "do_move E m newSt givesCheck p"
  let ?f = "from_sq m" and ?t = "to_sq m"
  have ne: "?f \<noteq> ?t"
    using assms(1,2) by (rule pseudo_legal_from_to)
  have cap: "capturedPiece (cur ?d) = board p ?t"
    by (simp add: do_move_rest piece_on_def)
  have bp: "board_part (undo_move m ?d) = board_part p"
  proof (cases "board p ?t = NO_PIECE")
    case True
    have "board_part (move_piece ?t ?f ?d) = board_part (move_piece ?t ?f (move_piece ?f ?t p))"
      by (rule move_piece_cong) (simp add: do_move_board piece_on_def True)
    then show ?thesis
      using undo_board_quiet [OF ne True] by (simp add: undo_move_board_part cap True)
  next
    case False
    with assms(3) have b: "bit (byKind p (type_of (board p ?t))) ?t"
        "bit (byColor p (color_of (board p ?t))) ?t"
      by (auto simp: agrees_at_def)
    have "board_part (move_piece ?t ?f ?d)
        = board_part (move_piece ?t ?f (move_piece ?f ?t (remove_piece ?t p)))"
      by (rule move_piece_cong) (simp add: do_move_board piece_on_def False)
    then have "board_part (put_piece (board p ?t) ?t (move_piece ?t ?f ?d))
        = board_part (put_piece (board p ?t) ?t (move_piece ?t ?f (move_piece ?f ?t (remove_piece ?t p))))"
      by (rule put_piece_cong)
    then show ?thesis
      using undo_board_capture [OF ne b] by (simp add: undo_move_board_part cap False)
  qed
  from bp have "board (undo_move m ?d) = board p" "byKind (undo_move m ?d) = byKind p"
      "byColor (undo_move m ?d) = byColor p" "pieceCount (undo_move m ?d) = pieceCount p"
    by (simp_all add: board_part_def)
  moreover have "sideToMove (undo_move m ?d) = sideToMove p" "gamePly (undo_move m ?d) = gamePly p"
      "st (undo_move m ?d) = st p"
    by (simp_all add: undo_move_rest do_move_rest)
  ultimately show ?thesis
    using undo_move_reads_head by blast
qed

theorem do_move_undo_move_witness:
  "pseudo_legal xq rook_takes_pawn (make_move 0 27)
   \<and> agrees_at rook_takes_pawn (from_sq (make_move 0 27))
   \<and> agrees_at rook_takes_pawn (to_sq (make_move 0 27))
   \<and> board (undo_move (make_move 0 27)
         (do_move xq (make_move 0 27) zero_StateInfo False rook_takes_pawn))
       = board rook_takes_pawn
   \<and> pieceCount (undo_move (make_move 0 27)
         (do_move xq (make_move 0 27) zero_StateInfo False rook_takes_pawn))
       = pieceCount rook_takes_pawn
   \<and> st (undo_move (make_move 0 27)
         (do_move xq (make_move 0 27) zero_StateInfo False rook_takes_pawn))
       = st rook_takes_pawn"
proof -
  have h1: "pseudo_legal xq rook_takes_pawn (make_move 0 27)"
    by code_simp
  have h2: "agrees_at rook_takes_pawn (from_sq (make_move 0 27))"
    by code_simp
  have h3: "agrees_at rook_takes_pawn (to_sq (make_move 0 27))"
    by code_simp
  from do_move_undo_move [OF h1 h2 h3, of zero_StateInfo False] h1 h2 h3 show ?thesis
    by blast
qed

subsection \<open>Pseudo-legality\<close>

lemma and_square_bb: "(b AND square_bb s \<noteq> 0) \<longleftrightarrow> bit b s"
proof
  assume "b AND square_bb s \<noteq> 0"
  then obtain n where "bit (b AND square_bb s) n"
    by (auto simp: bit_eq_iff)
  then show "bit b s"
    by (auto simp: bit_simps bit_square_bb)
next
  assume "bit b s"
  then have "bit (b AND square_bb s) s"
    by (auto simp: bit_simps bit_square_bb dest: bit_imp_le_length)
  then show "b AND square_bb s \<noteq> 0"
    by auto
qed

text \<open>
  Claim C7. For every move value \<open>m\<close>, whatever its two squares, \<open>pseudo_legal m\<close>
  is true exactly when the from-square holds a piece of the side to move, the
  destination is not occupied by a piece of that side, and the mover's geometry
  permits the step. \<open>pseudo_legal\<close> has no assertion and no failing branch: it is a
  total function to a truth value, false on every impossibility.
\<close>

theorem pseudo_legal_iff_spec:
  "pseudo_legal E p m \<longleftrightarrow> pseudo_legal_spec E p m"
  by (auto simp: pseudo_legal_def pseudo_legal_spec_def geometry_permits_def Let_def
      moved_piece_def capture_def empty_sq_def and_square_bb)

subsection \<open>Legality\<close>


subsection \<open>The concrete geometry is coherent\<close>





lemma xq_back_back [simp]: "xq_back (xq_back d) = d"
  by (simp add: xq_back_def)




































subsection \<open>Legal moves\<close>








subsection \<open>Loops over a bitboard\<close>

lemma distinct_squares_of: "distinct (squares_of b)"
  by (simp add: squares_of_def)

lemma squares_of_pop_lsb:
  assumes "b \<noteq> 0"
  shows "squares_of b = fst (pop_lsb b) # squares_of (snd (pop_lsb b))"
proof -
  from assms obtain s ss where e: "squares_of b = s # ss"
    using squares_of_empty [of b] by (cases "squares_of b") auto
  then have l: "lsb b = s"
    by (simp add: lsb_def)
  have "s \<notin> set ss"
    using distinct_squares_of [of b] e by simp
  then have "filter (\<lambda>n. n \<noteq> s) ss = ss"
    by (auto simp: filter_id_conv)
  then show ?thesis
    using e l by (simp add: pop_lsb_def squares_of_pop)
qed

lemma bb_loop_fold: "bb_loop body b acc = fold body (squares_of b) acc"
proof (induction body b acc rule: bb_loop.induct)
  case (1 body b acc)
  show ?case
  proof (cases "b = 0")
    case True
    then show ?thesis
      using squares_of_empty [of b] by (simp add: bb_loop.simps)
  next
    case False
    then show ?thesis
      using 1 squares_of_pop_lsb [OF False] by (subst bb_loop.simps) simp
  qed
qed

lemma fold_invariant:
  assumes "P acc" "\<And>s a. s \<in> set xs \<Longrightarrow> P a \<Longrightarrow> P (body s a)"
  shows "P (fold body xs acc)"
  using assms by (induction xs arbitrary: acc) auto

lemma bb_loop_invariant:
  assumes "P acc" "\<And>s a. bit b s \<Longrightarrow> P a \<Longrightarrow> P (body s a)"
  shows "P (bb_loop body b acc)"
  unfolding bb_loop_fold
proof (rule fold_invariant [where P = P])
  show "P acc"
    by (rule assms(1))
next
  fix s a
  assume "s \<in> set (squares_of b)" "P a"
  then show "P (body s a)"
    by (simp add: set_squares_of assms(2))
qed

subsection \<open>Blockers and pinners\<close>

lemma popcount_zero: "popcount b = 0 \<longleftrightarrow> b = 0"
  by (simp add: popcount_def squares_of_empty)

lemma sniper_blocks_iff:
  "sniper_blocks p sq b \<longleftrightarrow> popcount b = (if type_of (piece_on p sq) = CANNON then 2 else 1)"
  using popcount_zero [of b]
  by (auto simp: sniper_blocks_def Let_def more_than_one_def)

lemma fold_blockers:
  "bit (fst (fold (blockers_step E p occ s) xs (B, P))) n \<longleftrightarrow>
     bit B n \<or> (\<exists>sq \<in> set xs. sniper_blocks p sq (sniper_between E p occ s sq)
                   \<and> bit (sniper_between E p occ s sq) n)"
  by (induction xs arbitrary: B P) (auto simp: blockers_step_def Let_def bit_simps)

lemma fold_pinners:
  "bit (snd (fold (blockers_step E p occ s) xs (B, P))) n \<longleftrightarrow>
     bit P n \<or> (n \<in> set xs \<and> n < 128 \<and> sniper_blocks p n (sniper_between E p occ s n)
                   \<and> sniper_between E p occ s n AND pieces_c p (color_of (piece_on p s)) \<noteq> 0)"
  by (induction xs arbitrary: B P) (auto simp: blockers_step_def Let_def bit_simps bit_square_bb)

lemma and_not_eq_xor: "a AND NOT b = 0 \<Longrightarrow> b XOR a = b AND NOT (a :: Bitboard)"
  by (rule bit_eqI) (auto simp: bit_simps bit_eq_iff)


lemma snipers_on_board:
  assumes "sniper_kinds_on_board p" "bit (snipers_of E p sliders s) n"
  shows "bit (pieces p) n"
proof -
  from assms(2) have "bit (pieces_t p ROOK OR pieces_t p CANNON OR pieces_t p KING OR pieces_t p KNIGHT) n"
    by (auto simp: snipers_of_def bit_simps)
  moreover from assms(1)
  have "\<not> bit ((pieces_t p ROOK OR pieces_t p CANNON OR pieces_t p KING OR pieces_t p KNIGHT)
            AND NOT (pieces p)) n"
    by (simp add: sniper_kinds_on_board_def)
  ultimately show ?thesis
    by (auto simp: bit_simps dest: bit_imp_le_length)
qed

lemma sniper_between_counted:
  assumes "sniper_kinds_on_board p" "bit (snipers_of E p sliders s) sq"
  shows "sniper_between E p (pieces p XOR (snipers_of E p sliders s AND NOT (pieces_t p CANNON))) s sq
       = counted_ray E p sliders s sq"
proof (cases "is_cannon p sq")
  case True
  have "bit (pieces p) sq"
    using assms by (rule snipers_on_board)
  then have "pieces p XOR square_bb sq = pieces p AND NOT (square_bb sq)"
    by (rule xor_vacates)
  then show ?thesis
    using True
    by (simp add: sniper_between_def counted_ray_def ray_pieces_def is_cannon_def Let_def and.assoc)
next
  case False
  have "\<And>n. bit (snipers_of E p sliders s AND NOT (pieces_t p CANNON)) n \<Longrightarrow> bit (pieces p) n"
    using snipers_on_board [OF assms(1)] by (auto simp: bit_simps)
  then have "(snipers_of E p sliders s AND NOT (pieces_t p CANNON)) AND NOT (pieces p) = 0"
    by (auto simp: bit_eq_iff bit_simps)
  then have "pieces p XOR (snipers_of E p sliders s AND NOT (pieces_t p CANNON))
      = pieces p AND NOT (snipers_of E p sliders s AND NOT (pieces_t p CANNON))"
    by (rule and_not_eq_xor)
  then show ?thesis
    using False
    by (simp add: sniper_between_def counted_ray_def is_cannon_def Let_def and.assoc)
qed

text \<open>
  Claim C8, as amended. In a position whose rooks, cannons, kings and knights are
  part of the occupancy, for every set of sliders and target square \<open>s\<close>,
  \<open>blockers_for_king\<close> returns as blockers exactly the pieces of the rays that
  qualify, and as pinners exactly the snipers with a qualifying ray that holds a
  piece of the colour of the occupant of \<open>s\<close>. A cannon's ray qualifies when it
  holds exactly two pieces; the ray of a rook-, knight- or king-type sniper
  qualifies when it holds exactly one piece that is not itself a non-cannon
  sniper.
\<close>

theorem blockers_for_king_counts:
  assumes "sniper_kinds_on_board p"
  shows "blockers_claim (counted_ray E p sliders s) E p sliders s (blockers_for_king E p sliders s)"
proof -
  let ?sn = "snipers_of E p sliders s"
  let ?occ = "pieces p XOR (?sn AND NOT (pieces_t p CANNON))"
  have r: "blockers_for_king E p sliders s
      = fold (blockers_step E p ?occ s) (squares_of ?sn) (0, 0)"
    by (simp only: blockers_for_king_def Let_def bb_loop_fold)
  have c: "\<And>sq. bit ?sn sq \<Longrightarrow> sniper_between E p ?occ s sq = counted_ray E p sliders s sq"
    using sniper_between_counted [OF assms] by simp
  have b: "\<And>sq r. sniper_blocks p sq r = ray_blocks p sq r"
    by (simp add: sniper_blocks_iff ray_blocks_def is_cannon_def)
  have "\<And>n. bit (fst (blockers_for_king E p sliders s)) n \<longleftrightarrow>
      (\<exists>sq. bit ?sn sq \<and> ray_blocks p sq (counted_ray E p sliders s sq)
             \<and> bit (counted_ray E p sliders s sq) n)"
    unfolding r fold_blockers using c by (auto simp: set_squares_of b)
  moreover have "\<And>sq. bit (snd (blockers_for_king E p sliders s)) sq \<longleftrightarrow>
      (bit ?sn sq \<and> ray_blocks p sq (counted_ray E p sliders s sq)
       \<and> counted_ray E p sliders s sq AND pieces_c p (color_of (piece_on p s)) \<noteq> 0)"
    unfolding r fold_pinners using c by (auto simp: set_squares_of b dest: bit_imp_le_length)
  ultimately show ?thesis
    by (simp add: blockers_claim_def)
qed

theorem blockers_for_king_counts_witness:
  "sniper_kinds_on_board two_rooks_on_file
   \<and> blockers_claim (counted_ray xq two_rooks_on_file (pieces_c two_rooks_on_file BLACK) 4)
        xq two_rooks_on_file (pieces_c two_rooks_on_file BLACK) 4
        (blockers_for_king xq two_rooks_on_file (pieces_c two_rooks_on_file BLACK) 4)"
proof -
  have h: "sniper_kinds_on_board two_rooks_on_file"
    by code_simp
  from blockers_for_king_counts [OF h] h show ?thesis
    by blast
qed

text \<open>
  Claim C8 as stated fails. White king e0, black rook e2, white pawn e5, black
  rook e9, black king d9, the snipers being the black pieces: the ray between the
  rook on e9 and the king holds two pieces (the rook on e2 and the pawn), yet the
  source does not count the other rook, reports the pawn as a blocker and the rook
  on e9 as a pinner.
\<close>

theorem blockers_for_king_counterexample:
  "\<not> blockers_claim (ray_pieces xq two_rooks_on_file 4)
        xq two_rooks_on_file (pieces_c two_rooks_on_file BLACK) 4
        (blockers_for_king xq two_rooks_on_file (pieces_c two_rooks_on_file BLACK) 4)"
proof
  assume a: "blockers_claim (ray_pieces xq two_rooks_on_file 4)
        xq two_rooks_on_file (pieces_c two_rooks_on_file BLACK) 4
        (blockers_for_king xq two_rooks_on_file (pieces_c two_rooks_on_file BLACK) 4)"
  have p: "bit (snd (blockers_for_king xq two_rooks_on_file (pieces_c two_rooks_on_file BLACK) 4)) 85"
    by code_simp
  have n: "\<not> ray_blocks two_rooks_on_file 85 (ray_pieces xq two_rooks_on_file 4 85)"
    by code_simp
  from a p have "ray_blocks two_rooks_on_file 85 (ray_pieces xq two_rooks_on_file 4 85)"
    unfolding blockers_claim_def by blast
  with n show False
    by simp
qed

subsection \<open>Repetition, perpetual check and perpetual chase\<close>

lemma matches_Suc_int:
  "1 \<le> g \<Longrightarrow> int (matches ss (Suc g))
     = (if key_match ss (Suc g) then int (matches ss g) + 1 else int (matches ss g))"
  by (simp add: matches_def)

lemma perpetual_them_Suc:
  "perpetual_them ss (Suc g) \<longleftrightarrow> perpetual_them ss g \<and> checkersBB (ss ! (2 * Suc g)) \<noteq> 0"
  by (auto simp: perpetual_them_def atLeastAtMostSuc_conv)

lemma perpetual_us_Suc:
  "perpetual_us ss (Suc g) \<longleftrightarrow> perpetual_us ss g \<and> checkersBB (ss ! (2 * g + 1)) \<noteq> 0"
  by (auto simp: perpetual_us_def atLeast0_lessThan_Suc)

lemma loop_hit:
  assumes fh: "first_hit ss ply h"
    and len: "pliesFromNull (hd ss) < int (length ss)"
  shows "2 \<le> g \<Longrightarrow> g \<le> h \<Longrightarrow> n = h - g \<Longrightarrow>
     is_repeated_loop E ss result ply (2 * int g) (2 * g - 2) (int (matches ss (g - 1)))
        (perpetual_them ss (g - 1)) (perpetual_us ss g)
        (chase_line E ss 0 (g - 1)) (chase_line E ss 1 (g - 1))
     = Some (True, repetition_result E ply (perpetual_them ss h) (perpetual_us ss h)
                     (chase_them E ss h) (chase_us E ss h))"
proof (induction n arbitrary: g)
  case 0
  then have gh: "g = h" by simp
  obtain g' where g': "g = Suc g'" "1 \<le> g'"
    using 0(1) by (cases g) auto
  from fh have le: "2 * int h \<le> pliesFromNull (hd ss)" and ht: "hit ss ply h"
    by (simp_all add: first_hit_def)
  have d: "deref ss (2 * g' + 2) = Some (ss ! (2 * g' + 2))"
    using le len gh g' by (simp add: deref_def)
  have hd0: "hd ss = ss ! 0"
    using len le by (cases ss) auto
  show ?case
    using ht le d g' gh
    by (subst is_repeated_loop.simps)
      (auto simp: Let_def hit_def key_match_def hd0 matches_Suc_int perpetual_them_Suc
        chase_them_def chase_us_def)
next
  case (Suc n)
  obtain g' where g': "g = Suc g'" "1 \<le> g'"
    using Suc.prems(1) by (cases g) auto
  from Suc.prems have lt: "g < h" by simp
  from fh have le: "2 * int h \<le> pliesFromNull (hd ss)"
    by (simp add: first_hit_def)
  from fh lt Suc.prems(1) have nh: "\<not> hit ss ply g"
    by (simp add: first_hit_def)
  have d2: "deref ss (2 * g' + 2) = Some (ss ! (2 * g' + 2))"
    and d3: "deref ss (Suc (Suc (Suc (2 * g')))) = Some (ss ! (Suc (Suc (Suc (2 * g')))))"
    using le len lt g' by (simp_all add: deref_def)
  have e3: "2 * g' + 3 = Suc (Suc (Suc (2 * g')))"
    by simp
  have hd0: "hd ss = ss ! 0"
    using len le by (cases ss) auto
  have ih: "is_repeated_loop E ss result ply (2 * int (Suc g)) (2 * Suc g - 2)
        (int (matches ss (Suc g - 1))) (perpetual_them ss (Suc g - 1)) (perpetual_us ss (Suc g))
        (chase_line E ss 0 (Suc g - 1)) (chase_line E ss 1 (Suc g - 1))
     = Some (True, repetition_result E ply (perpetual_them ss h) (perpetual_us ss h)
                     (chase_them E ss h) (chase_us E ss h))"
    using Suc.prems lt by (intro Suc.IH) auto
  have "is_repeated_loop E ss result ply (2 * int g) (2 * g - 2) (int (matches ss (g - 1)))
        (perpetual_them ss (g - 1)) (perpetual_us ss g)
        (chase_line E ss 0 (g - 1)) (chase_line E ss 1 (g - 1))
      = is_repeated_loop E ss result ply (2 * int (Suc g)) (2 * Suc g - 2)
        (int (matches ss (Suc g - 1))) (perpetual_them ss (Suc g - 1)) (perpetual_us ss (Suc g))
        (chase_line E ss 0 (Suc g - 1)) (chase_line E ss 1 (Suc g - 1))"
    using nh le lt d2 d3 g'
    by (subst is_repeated_loop.simps)
      (auto simp: Let_def hit_def key_match_def hd0 matches_Suc_int perpetual_them_Suc
        perpetual_us_Suc e3)
  then show ?case
    using ih by simp
qed


lemma is_repeated_first_hit:
  assumes fh: "first_hit (st p) ply h"
    and len: "pliesFromNull (hd (st p)) < int (length (st p))"
  shows "is_repeated E p result ply
     = Some (True, repetition_result E ply (perpetual_them (st p) h) (perpetual_us (st p) h)
                     (chase_them E (st p) h) (chase_us E (st p) h))"
proof -
  from fh have h2: "2 \<le> h" and le: "2 * int h \<le> pliesFromNull (hd (st p))"
    by (simp_all add: first_hit_def)
  from le h2 len obtain s0 rest where ss: "st p = s0 # rest"
    by (cases "st p") auto
  have four: "4 \<le> pliesFromNull s0"
    using le h2 ss by simp
  have d3: "deref (s0 # rest) 3 = Some ((s0 # rest) ! 3)"
    using four len ss by (simp add: deref_def)
  have pt: "perpetual_them (s0 # rest) (Suc 0)
      \<longleftrightarrow> checkersBB s0 \<noteq> 0 \<and> checkersBB ((s0 # rest) ! 2) \<noteq> 0"
    by (auto simp: perpetual_them_def atLeastAtMostSuc_conv numeral_2_eq_2)
  have pu: "perpetual_us (s0 # rest) 2
      \<longleftrightarrow> checkersBB ((s0 # rest) ! 1) \<noteq> 0 \<and> checkersBB ((s0 # rest) ! 3) \<noteq> 0"
    by (auto simp: perpetual_us_def numeral_2_eq_2 numeral_3_eq_3 atLeast0_lessThan_Suc)
  have ct: "chase_line E (s0 # rest) 0 (Suc 0)
      = undo_move_board E (st_chased s0) (move ((s0 # rest) ! 1)) AND st_chased ((s0 # rest) ! 2)"
    by (simp add: numeral_2_eq_2)
  have cu: "chase_line E (s0 # rest) (Suc 0) (Suc 0)
      = undo_move_board E (st_chased ((s0 # rest) ! 1)) (move ((s0 # rest) ! 2))
          AND st_chased ((s0 # rest) ! 3)"
    by (simp add: numeral_2_eq_2 numeral_3_eq_3)
  have m: "matches (s0 # rest) (Suc 0) = 0"
    by (simp add: matches_def)
  have "is_repeated_loop E (s0 # rest) result ply (2 * int 2) (2 * 2 - 2)
        (int (matches (s0 # rest) (2 - 1)))
        (perpetual_them (s0 # rest) (2 - 1)) (perpetual_us (s0 # rest) 2)
        (chase_line E (s0 # rest) 0 (2 - 1)) (chase_line E (s0 # rest) 1 (2 - 1))
     = Some (True, repetition_result E ply (perpetual_them (s0 # rest) h)
                     (perpetual_us (s0 # rest) h)
                     (chase_them E (s0 # rest) h) (chase_us E (s0 # rest) h))"
    by (rule loop_hit [OF fh [unfolded ss] len [unfolded ss] _ h2 refl]) simp
  then have "is_repeated_loop E (s0 # rest) result ply 4 2 0
        (checkersBB s0 \<noteq> 0 \<and> checkersBB ((s0 # rest) ! 2) \<noteq> 0)
        (checkersBB ((s0 # rest) ! 1) \<noteq> 0 \<and> checkersBB ((s0 # rest) ! 3) \<noteq> 0)
        (undo_move_board E (st_chased s0) (move ((s0 # rest) ! 1)) AND st_chased ((s0 # rest) ! 2))
        (undo_move_board E (st_chased ((s0 # rest) ! 1)) (move ((s0 # rest) ! 2))
          AND st_chased ((s0 # rest) ! 3))
     = Some (True, repetition_result E ply (perpetual_them (s0 # rest) h)
                     (perpetual_us (s0 # rest) h)
                     (chase_them E (s0 # rest) h) (chase_us E (s0 # rest) h))"
    by (simp only: pt [symmetric] pu [symmetric] ct [symmetric] cu [symmetric])
      (simp add: m)
  then show ?thesis
    unfolding is_repeated_def ss using four d3 by (simp add: Let_def)
qed

lemma filter_upt_single:
  assumes "2 \<le> a" "P a" "\<forall>g. 2 \<le> g \<and> g < a \<longrightarrow> \<not> P g"
  shows "length (filter P [2..<Suc a]) = 1"
proof -
  have "filter P [2..<a] = []"
    using assms(3) by (auto simp: filter_empty_conv)
  then show ?thesis
    using assms(1,2) by simp
qed

lemma filter_upt_double:
  assumes "2 \<le> a" "a < b" "P a" "P b" "\<forall>g. 2 \<le> g \<and> g < b \<and> g \<noteq> a \<longrightarrow> \<not> P g"
  shows "length (filter P [2..<Suc b]) = 2"
proof -
  have s: "[2..<Suc b] = [2..<Suc a] @ [Suc a..<b] @ [b]"
    using assms(1,2) upt_add_eq_append [of 2 "Suc a" "b - Suc a"] by simp
  have "filter P [Suc a..<b] = []"
    using assms(1,5) by (auto simp: filter_empty_conv)
  moreover have "length (filter P [2..<Suc a]) = 1"
    using assms by (intro filter_upt_single) auto
  ultimately show ?thesis
    using assms(4) by (simp add: s del: upt_Suc)
qed

lemma exists_first_hit:
  assumes "2 \<le> m1" "m1 < m2" "2 * int m2 \<le> pliesFromNull (hd ss)"
    "key_match ss m1" "key_match ss m2"
  shows "\<exists>h. first_hit ss ply h \<and> h \<le> m2"
proof -
  define a where "a = (LEAST g. 2 \<le> g \<and> key_match ss g)"
  have pm1: "2 \<le> m1 \<and> key_match ss m1"
    using assms(1,4) by simp
  have a: "2 \<le> a \<and> key_match ss a"
    unfolding a_def using pm1 by (rule LeastI)
  have a_le: "a \<le> m1"
    unfolding a_def using pm1 by (rule Least_le)
  have a_least: "\<And>g. 2 \<le> g \<Longrightarrow> g < a \<Longrightarrow> \<not> key_match ss g"
    unfolding a_def using not_less_Least by blast
  define b where "b = (LEAST g. a < g \<and> key_match ss g)"
  have pm2: "a < m2 \<and> key_match ss m2"
    using assms(2,5) a_le by simp
  have b: "a < b \<and> key_match ss b"
    unfolding b_def using pm2 by (rule LeastI)
  have b_le: "b \<le> m2"
    unfolding b_def using pm2 by (rule Least_le)
  have b_least: "\<And>g. a < g \<Longrightarrow> g < b \<Longrightarrow> \<not> key_match ss g"
    unfolding b_def using not_less_Least by blast
  have ma: "matches ss a = 1"
    unfolding matches_def using a a_least by (intro filter_upt_single) auto
  have nm: "\<not> key_match ss g" if "2 \<le> g" "g < b" "g \<noteq> a" for g
  proof (cases "g < a")
    case True
    then show ?thesis
      using a_least that(1) by simp
  next
    case False
    then have "a < g"
      using that(3) by simp
    then show ?thesis
      using b_least that(2) by simp
  qed
  have mb: "matches ss b = 2"
    unfolding matches_def using a b nm by (intro filter_upt_double [of a]) auto
  have "hit ss ply a \<or> hit ss ply b"
    using a b ma mb by (auto simp: hit_def)
  then have ex: "\<exists>g. 2 \<le> g \<and> g \<le> m2 \<and> hit ss ply g"
  proof
    assume "hit ss ply a"
    moreover have "a \<le> m2"
      using a_le assms(2) by simp
    ultimately show ?thesis
      using a by blast
  next
    assume "hit ss ply b"
    moreover have "2 \<le> b"
      using a b by simp
    ultimately show ?thesis
      using b_le by blast
  qed
  define h where "h = (LEAST g. 2 \<le> g \<and> g \<le> m2 \<and> hit ss ply g)"
  from ex obtain g0 where g0: "2 \<le> g0 \<and> g0 \<le> m2 \<and> hit ss ply g0"
    by blast
  have h: "2 \<le> h \<and> h \<le> m2 \<and> hit ss ply h"
    unfolding h_def using g0 by (rule LeastI)
  have h_least: "\<And>g. 2 \<le> g \<Longrightarrow> g < h \<Longrightarrow> \<not> hit ss ply g"
  proof
    fix g
    assume g: "2 \<le> g" "g < h" "hit ss ply g"
    then have "2 \<le> g \<and> g \<le> m2 \<and> hit ss ply g"
      using h by simp
    then have "h \<le> g"
      unfolding h_def by (rule Least_le)
    with g(2) show False
      by simp
  qed
  have "first_hit ss ply h"
    using h h_least assms(3) by (auto simp: first_hit_def)
  then show ?thesis
    using h by blast
qed

lemma repetition_result_amended:
  "repetition_result E ply pt pu ct cu = amended_result E ply pt pu (ct \<noteq> 0) (cu \<noteq> 0)"
  by (simp add: repetition_result_def amended_result_def)

text \<open>
  Claim C3, as amended. Whenever the chain is complete (it has a record for each
  of the \<^verbatim>\<open>pliesFromNull\<close> plies) and a repetition is found, the first at
  \<open>2 h\<close> plies back, \<open>is_repeated\<close> returns true and sets \<open>result\<close> by the
  table: perpetual check by both sides gives \<open>VALUE_DRAW\<close>, by them only
  \<open>VALUE_MATE - ply\<close>, by us only \<open>- VALUE_MATE + ply\<close>; with no perpetual
  check, a persistent chase by them only gives \<open>VALUE_MATE - ply\<close>, by us only
  \<open>- VALUE_MATE + ply\<close>, and no chase or a chase by both sides gives
  \<open>VALUE_DRAW\<close>.
\<close>

theorem is_repeated_table:
  assumes "first_hit (st p) ply h" "chain_complete p"
  shows "repetition_claim amended_result E p result ply h"
  using is_repeated_first_hit [OF assms(1) assms(2) [unfolded chain_complete_def]]
  by (simp add: repetition_claim_def repetition_result_amended)

theorem is_repeated_table_witness:
  "first_hit (st mutual_chase) 6 2 \<and> chain_complete mutual_chase
   \<and> repetition_claim amended_result xq mutual_chase 0 6 2
   \<and> is_repeated xq mutual_chase 0 6 = Some (True, VALUE_DRAW xq)"
proof -
  have h1: "first_hit (st mutual_chase) 6 2"
    by code_simp
  have h2: "chain_complete mutual_chase"
    by code_simp
  have v: "is_repeated xq mutual_chase 0 6 = Some (True, VALUE_DRAW xq)"
    by code_simp
  from is_repeated_table [OF h1 h2] h1 h2 v show ?thesis
    by blast
qed

text \<open>
  Claim C3 as stated fails where both sides chase: four plies in which White and
  Black each keep one enemy piece chased, no checks, the position of four plies
  back repeated after the root (\<open>ply = 6\<close>). The table of the claim gives
  \<open>VALUE_MATE - ply\<close> for the chase by them; the source returns \<open>VALUE_DRAW\<close>.
\<close>

theorem is_repeated_table_counterexample:
  "first_hit (st mutual_chase) 6 2 \<and> chain_complete mutual_chase
   \<and> \<not> repetition_claim claimed_result xq mutual_chase 0 6 2"
proof -
  have h1: "first_hit (st mutual_chase) 6 2"
    by code_simp
  have h2: "chain_complete mutual_chase"
    by code_simp
  have v: "is_repeated xq mutual_chase 0 6 = Some (True, 0)"
    by code_simp
  have c: "claimed_result xq 6 (perpetual_them (st mutual_chase) 2) (perpetual_us (st mutual_chase) 2)
      (chase_them xq (st mutual_chase) 2 \<noteq> 0) (chase_us xq (st mutual_chase) 2 \<noteq> 0) = 31994"
    by code_simp
  show ?thesis
    using h1 h2 by (simp add: repetition_claim_def v c)
qed

subsection \<open>Three-fold repetition\<close>

lemma chase_line_zero:
  "1 \<le> n \<Longrightarrow> st_chased (ss ! (j + 2 * n)) = 0 \<Longrightarrow> chase_line E ss j n = 0"
  by (cases n) simp_all

lemma threefold_first_hit:
  assumes "threefold ss m1 m2"
  shows "\<exists>h. first_hit ss ply h \<and> h \<le> m2"
  using assms unfolding threefold_def by (intro exists_first_hit [of m1]) auto

text \<open>
  Claim C9, as amended. If the key of the current state occurs twice more along a
  complete chain (\<open>2 m1\<close> and \<open>2 m2\<close> plies back, within \<^verbatim>\<open>pliesFromNull\<close>),
  then with no checkers on any intermediate ply and no chased pieces recorded on
  any earlier ply back to the earliest occurrence \<open>is_repeated\<close> yields
  \<open>VALUE_DRAW\<close>, and with checkers on every one of our intermediate plies (the
  odd ones) and on none of theirs it yields the losing mate score
  \<open>- VALUE_MATE + ply\<close>. Nothing is asked of the plies before the earliest
  occurrence.
\<close>

theorem threefold_repetition:
  assumes "chain_complete p" "threefold (st p) m1 m2"
  shows "(no_checks (st p) m1 m2 \<and> no_chases (st p) m2
            \<longrightarrow> is_repeated E p result ply = Some (True, VALUE_DRAW E))
       \<and> (we_check_only (st p) m1 m2
            \<longrightarrow> is_repeated E p result ply = Some (True, - VALUE_MATE E + ply))"
proof -
  let ?ss = "st p"
  let ?n = "pliesFromNull (hd ?ss)"
  from threefold_first_hit [OF assms(2)] obtain h where fh: "first_hit ?ss ply h" and hm: "h \<le> m2"
    by blast
  then have h2: "2 \<le> h" and le: "2 * int h \<le> ?n"
    by (simp_all add: first_hit_def)
  have m1: "2 \<le> m1" and m12: "m1 < m2"
    using assms(2) by (simp_all add: threefold_def)
  have r: "is_repeated E p result ply
     = Some (True, repetition_result E ply (perpetual_them ?ss h) (perpetual_us ?ss h)
                     (chase_them E ?ss h) (chase_us E ?ss h))"
    using fh assms(1) unfolding chain_complete_def by (rule is_repeated_first_hit)
  have in1: "1 \<in> set (intermediate m1 m2)" and in2: "2 \<in> set (intermediate m1 m2)"
    using m1 m12 by (simp_all add: intermediate_def)
  have odd_mid: "2 * g + 1 \<in> set (intermediate m1 m2)" if "g < h" for g
  proof -
    have "2 * g + 1 < 2 * m2"
      using that hm by simp
    moreover have "2 * g + 1 \<noteq> 2 * m1"
      by presburger
    ultimately show ?thesis
      by (simp add: intermediate_def)
  qed
  have quiet: "is_repeated E p result ply = Some (True, VALUE_DRAW E)"
    if nc: "no_checks ?ss m1 m2" and nch: "no_chases ?ss m2"
  proof -
    have "checkersBB (?ss ! (2 * 1)) = 0"
      using nc in2 unfolding no_checks_def by simp
    moreover have "1 \<in> {0..h}"
      using h2 by simp
    ultimately have pt: "\<not> perpetual_them ?ss h"
      unfolding perpetual_them_def by blast
    have "checkersBB (?ss ! (2 * 0 + 1)) = 0"
      using nc in1 unfolding no_checks_def by simp
    moreover have "0 \<in> {0..<h}"
      using h2 by simp
    ultimately have pu: "\<not> perpetual_us ?ss h"
      unfolding perpetual_us_def by blast
    have z: "st_chased (?ss ! k) = 0" if "1 \<le> k" "k \<le> 2 * h" for k
    proof -
      have "k \<in> {1..2 * m2}"
        using that hm by auto
      then show ?thesis
        using nch unfolding no_chases_def by blast
    qed
    have ct: "chase_them E ?ss h = 0"
    proof (cases "2 * int h = ?n")
      case True
      have "st_chased (?ss ! (0 + 2 * (h - 1))) = 0"
        using h2 by (intro z) simp_all
      moreover have "1 \<le> h - 1"
        using h2 by simp
      ultimately have "chase_line E ?ss 0 (h - 1) = 0"
        by (intro chase_line_zero)
      then show ?thesis
        using True by (simp add: chase_them_def)
    next
      case False
      have "st_chased (?ss ! (0 + 2 * h)) = 0"
        using h2 by (intro z) simp_all
      moreover have "1 \<le> h"
        using h2 by simp
      ultimately have "chase_line E ?ss 0 h = 0"
        by (intro chase_line_zero)
      then show ?thesis
        using False by (simp add: chase_them_def)
    qed
    have "st_chased (?ss ! (1 + 2 * (h - 1))) = 0"
      using h2 by (intro z) simp_all
    moreover have "1 \<le> h - 1"
      using h2 by simp
    ultimately have cu: "chase_us E ?ss h = 0"
      unfolding chase_us_def by (intro chase_line_zero)
    show ?thesis
      by (simp add: r repetition_result_def pt pu ct cu)
  qed
  have checks: "is_repeated E p result ply = Some (True, - VALUE_MATE E + ply)"
    if wc: "we_check_only ?ss m1 m2"
  proof -
    have "checkersBB (?ss ! (2 * 1)) = 0"
      using wc in2 unfolding we_check_only_def by auto
    moreover have "1 \<in> {0..h}"
      using h2 by simp
    ultimately have pt: "\<not> perpetual_them ?ss h"
      unfolding perpetual_them_def by blast
    have pu: "perpetual_us ?ss h"
      unfolding perpetual_us_def
    proof
      fix g
      assume "g \<in> {0..<h}"
      then have "2 * g + 1 \<in> set (intermediate m1 m2)"
        by (intro odd_mid) simp
      then show "checkersBB (?ss ! (2 * g + 1)) \<noteq> 0"
        using wc unfolding we_check_only_def by auto
    qed
    show ?thesis
      by (simp add: r repetition_result_def pt pu)
  qed
  show ?thesis
    using quiet checks by blast
qed

theorem threefold_repetition_witness:
  "(chain_complete quiet_cycle \<and> threefold (st quiet_cycle) 2 4
      \<and> no_checks (st quiet_cycle) 2 4 \<and> no_chases (st quiet_cycle) 4
      \<and> is_repeated xq quiet_cycle 0 0 = Some (True, VALUE_DRAW xq))
   \<and> (chain_complete check_cycle \<and> threefold (st check_cycle) 2 4
      \<and> we_check_only (st check_cycle) 2 4
      \<and> is_repeated xq check_cycle 0 0 = Some (True, - VALUE_MATE xq + 0))
   \<and> (chain_complete old_check \<and> threefold (st old_check) 2 4
      \<and> no_checks (st old_check) 2 4 \<and> no_chases (st old_check) 4
      \<and> checkersBB (st old_check ! 9) \<noteq> 0
      \<and> is_repeated xq old_check 0 0 = Some (True, VALUE_DRAW xq))"
proof -
  have q1: "chain_complete quiet_cycle" and q2: "threefold (st quiet_cycle) 2 4"
    and q3: "no_checks (st quiet_cycle) 2 4" and q4: "no_chases (st quiet_cycle) 4"
    by code_simp+
  have c1: "chain_complete check_cycle" and c2: "threefold (st check_cycle) 2 4"
    and c3: "we_check_only (st check_cycle) 2 4"
    by code_simp+
  have o1: "chain_complete old_check" and o2: "threefold (st old_check) 2 4"
    and o3: "no_checks (st old_check) 2 4" and o4: "no_chases (st old_check) 4"
    and o5: "checkersBB (st old_check ! 9) \<noteq> 0"
    by code_simp+
  from threefold_repetition [OF q1 q2, of xq 0 0] threefold_repetition [OF c1 c2, of xq 0 0]
    threefold_repetition [OF o1 o2, of xq 0 0]
    q1 q2 q3 q4 c1 c2 c3 o1 o2 o3 o4 o5
  show ?thesis
    by blast
qed

text \<open>
  Claim C9 as stated fails where one side chases: eight plies, the key repeated
  four and eight plies back, no checkers on any ply, and a piece of ours chased by
  them on each of our plies. The source returns \<open>VALUE_MATE - ply\<close>, not
  \<open>VALUE_DRAW\<close>.
\<close>

theorem threefold_repetition_counterexample:
  "chain_complete chase_cycle \<and> threefold (st chase_cycle) 2 4 \<and> no_checks (st chase_cycle) 2 4
   \<and> is_repeated xq chase_cycle 0 0 = Some (True, VALUE_MATE xq - 0)
   \<and> VALUE_MATE xq - 0 \<noteq> VALUE_DRAW xq"
  by code_simp

subsection \<open>The chased pieces\<close>

lemma within_bit: "within b m \<longleftrightarrow> (\<forall>n. bit b n \<longrightarrow> bit m n)"
proof
  assume w: "within b m"
  show "\<forall>n. bit b n \<longrightarrow> bit m n"
  proof (intro allI impI)
    fix n
    assume b: "bit b n"
    then have "n < 128"
      using bit_imp_le_length [of b n] by simp
    moreover have "\<not> bit (b AND NOT m) n"
      using w by (simp add: within_def)
    ultimately show "bit m n"
      using b by (simp add: bit_simps)
  qed
next
  assume "\<forall>n. bit b n \<longrightarrow> bit m n"
  then show "within b m"
    by (auto simp: within_def bit_eq_iff bit_simps)
qed

lemma within_simps [simp]:
  "within 0 m"
  "within (a OR b) m \<longleftrightarrow> within a m \<and> within b m"
  "within (m AND x) m"
  "within (x AND m) m"
  by (auto simp: within_bit bit_simps)

lemma within_and1: "within a m \<Longrightarrow> within (a AND x) m"
  by (auto simp: within_bit bit_simps)

lemma within_and2: "within a m \<Longrightarrow> within (x AND a) m"
  by (auto simp: within_bit bit_simps)

lemma within_square: "within a m \<Longrightarrow> bit a s \<Longrightarrow> within (square_bb s) m"
  by (auto simp: within_bit bit_square_bb)

lemma within_pieces [simp]:
  "within (pieces_ct p c pt) (pieces_c p c)"
  "within (pieces_ctt p c pt1 pt2) (pieces_c p c)"
  "within (pieces_cttt p c pt1 pt2 pt3) (pieces_c p c)"
  "within (pieces_c p c) (pieces_c p c)"
  by (auto simp: within_bit bit_simps pieces_ct_def pieces_ctt_def pieces_cttt_def pieces_c_def)

lemma bb_loop_within:
  assumes "within b0 m" "within a m"
    and "\<And>s b. bit a s \<Longrightarrow> within b m \<Longrightarrow> within (body s b) m"
  shows "within (bb_loop body a b0) m"
  using assms(1,3) by (rule bb_loop_invariant [where P = "\<lambda>b. within b m"])

lemma addChased_within:
  assumes "within b0 (pieces_c p (sideToMove p))" "within attacks0 (pieces_c p (sideToMove p))"
  shows "within (addChased E p pins attackerSq attackerType attacks0 b0) (pieces_c p (sideToMove p))"
proof (cases "attacks0 AND NOT b0 \<noteq> 0")
  case False
  then show ?thesis
    using assms(1) by (simp add: addChased_def)
next
  case True
  let ?m = "pieces_c p (sideToMove p)"
  define attacks1 where "attacks1 = attacks0 AND NOT (pieces_ctt p (sideToMove p) KING PAWN
       XOR (pieces_ct p (sideToMove p) PAWN AND HalfBB E (flip_color (sideToMove p))))"
  define b1 where "b1 = (if attackerType = KNIGHT \<or> attackerType = CANNON
       then b0 OR (attacks1 AND pieces_ct p (sideToMove p) ROOK) else b0)"
  define b2 where "b2 = (if attackerType = BISHOP \<or> attackerType = ADVISOR
       then b1 OR (attacks1 AND pieces_cttt p (sideToMove p) ROOK CANNON KNIGHT) else b1)"
  define attacks2 where "attacks2 = (if attackerType = KNIGHT
       then attacks1 AND (NOT (attacks_bb E KNIGHT_TO attackerSq (pieces p)) OR pins)
       else attacks1 AND (NOT (pieces_ct p (sideToMove p) attackerType) OR pins))"
  have a1: "within attacks1 ?m"
    unfolding attacks1_def using assms(2) by (rule within_and1)
  have w1: "within b1 ?m"
    unfolding b1_def using assms(1) a1 by (simp add: within_and1)
  have w2: "within b2 ?m"
    unfolding b2_def using w1 a1 by (simp add: within_and1)
  have a2: "within attacks2 ?m"
    unfolding attacks2_def using a1 by (simp add: within_and1)
  have step: "within (addChased_step E p pins attackerSq s b) ?m"
    if "bit attacks2 s" "within b ?m" for s b
    using that within_square [OF a2 that(1)] by (simp add: addChased_step_def Let_def)
  have "within (bb_loop (addChased_step E p pins attackerSq) attacks2 b2) ?m"
    using w2 a2 step by (rule bb_loop_within)
  moreover have "addChased E p pins attackerSq attackerType attacks0 b0
      = bb_loop (addChased_step E p pins attackerSq) attacks2 b2"
    using True by (simp add: addChased_def Let_def attacks1_def b1_def b2_def attacks2_def)
  ultimately show ?thesis
    by simp
qed


lemma chased_direct_within:
  "within b (pieces_c p (sideToMove p)) \<Longrightarrow>
   within (chased_direct E p pins b) (pieces_c p (sideToMove p))"
  by (auto simp: chased_direct_def Let_def within_and1 intro!: addChased_within)

lemma chased_discovered_within:
  assumes "within b (pieces_c p (sideToMove p))"
  shows "within (chased_discovered E p pins b) (pieces_c p (sideToMove p))"
  unfolding chased_discovered_def Let_def
proof (rule bb_loop_invariant [where P = "\<lambda>b. within b (pieces_c p (sideToMove p))"])
  show "within b (pieces_c p (sideToMove p))"
    by (rule assms)
next
  fix s a
  assume "within a (pieces_c p (sideToMove p))"
  then show "within (discovery_step E p pins s a) (pieces_c p (sideToMove p))"
    unfolding discovery_step_def Let_def
    by (intro addChased_within) (simp_all add: and.assoc)
qed

lemma new_pin_step_within:
  assumes "within b (pieces_c p (sideToMove p))"
  shows "within (new_pin_step E p s b) (pieces_c p (sideToMove p))"
proof -
  let ?m = "pieces_c p (sideToMove p)"
  let ?fr = "?m AND NOT (pieces_ctt p (sideToMove p) KING PAWN
       XOR (pieces_ct p (sideToMove p) PAWN AND HalfBB E (flip_color (sideToMove p))))"
  let ?fr2 = "if type_of (piece_on p s) = PAWN
       then ?fr AND pawn_attacks_bb E (sideToMove p) s
       else ?fr AND attacks_bb E (type_of (piece_on p s)) s (pieces p)"
  have f: "within ?fr ?m"
    by simp
  have f2: "within ?fr2 ?m"
    using f by (simp add: within_and1)
  have step: "within (fake_root_step E p s2 a) ?m" if "bit ?fr2 s2" "within a ?m" for s2 a
    using that(2) within_square [OF f2 that(1)] by (simp add: fake_root_step_def Let_def)
  have "within (bb_loop (fake_root_step E p) ?fr2 b) ?m"
    using assms f2 step by (rule bb_loop_within)
  then show ?thesis
    unfolding new_pin_step_def Let_def .
qed

lemma chased_fake_roots_within:
  assumes "within b (pieces_c p (sideToMove p))"
  shows "within (chased_fake_roots E p b) (pieces_c p (sideToMove p))"
  unfolding chased_fake_roots_def Let_def
  using assms
  by (rule bb_loop_invariant [where P = "\<lambda>b. within b (pieces_c p (sideToMove p))"])
    (rule new_pin_step_within)

lemma new_discoverer_step_within:
  assumes "within b (pieces_c p (sideToMove p))"
  shows "within (new_discoverer_step E p s b) (pieces_c p (sideToMove p))"
proof -
  let ?m = "pieces_c p (sideToMove p)"
  let ?da = "if type_of (piece_on p s) = PAWN
       then ?m AND pawn_attacks_bb E (flip_color (sideToMove p)) s
       else ?m AND attacks_bb E (type_of (piece_on p s)) s (pieces p)"
  let ?b1 = "b OR (?da AND NOT (pseudo_attacks_bb E KING (square_of p KING (sideToMove p))))"
  let ?da2 = "?da AND pseudo_attacks_bb E KING (square_of p KING (sideToMove p))"
  have d: "within ?da ?m"
    by simp
  have w1: "within ?b1 ?m"
    using assms d by (simp add: within_and1)
  have d2: "within ?da2 ?m"
    using d by (rule within_and1)
  have step: "within (recapture_step E p s s2 a) ?m" if "bit ?da2 s2" "within a ?m" for s2 a
    using that(2) within_square [OF d2 that(1)] by (simp add: recapture_step_def Let_def)
  have "within (bb_loop (recapture_step E p s) ?da2 ?b1) ?m"
    using w1 d2 step by (rule bb_loop_within)
  then show ?thesis
    unfolding new_discoverer_step_def Let_def .
qed

lemma chased_discovered_checks_within:
  assumes "within b (pieces_c p (sideToMove p))"
  shows "within (chased_discovered_checks E p b) (pieces_c p (sideToMove p))"
  unfolding chased_discovered_checks_def Let_def
  using assms
  by (rule bb_loop_invariant [where P = "\<lambda>b. within b (pieces_c p (sideToMove p))"])
    (rule new_discoverer_step_within)

text \<open>
  Claim C10. \<open>chased\<close> returns the empty bitboard whenever \<^verbatim>\<open>st->move\<close> is
  \<open>MOVE_NONE\<close>, and in every state (the reachable ones among them) its result is a
  subset of \<open>pieces(sideToMove)\<close>: it has no square outside the bitboard of the
  side to move.
\<close>

theorem chased_own_pieces:
  "(move (cur p) = MOVE_NONE \<longrightarrow> chased E p = 0)
   \<and> chased E p AND NOT (pieces_c p (sideToMove p)) = 0"
proof -
  have "within (chased E p) (pieces_c p (sideToMove p))"
    by (simp add: chased_def Let_def chased_direct_within chased_discovered_within
        chased_fake_roots_within chased_discovered_checks_within)
  then show ?thesis
    by (simp add: within_def chased_def)
qed

theorem chased_own_pieces_witness:
  "(move (cur rook_takes_pawn) = MOVE_NONE \<and> chased xq rook_takes_pawn = 0)
   \<and> (chased xq rook_chases_knight = square_bb 29
      \<and> chased xq rook_chases_knight AND NOT (pieces_c rook_chases_knight BLACK) = 0)"
proof -
  have h: "move (cur rook_takes_pawn) = MOVE_NONE"
    by code_simp
  have v: "chased xq rook_chases_knight = square_bb 29"
    by code_simp
  have s: "sideToMove rook_chases_knight = BLACK"
    by (simp add: rook_chases_knight_def)
  from chased_own_pieces [of rook_takes_pawn xq] chased_own_pieces [of rook_chases_knight xq]
    h v s
  show ?thesis
    by simp
qed

subsection \<open>The end of the exchange\<close>

lemma see_step_res:
  assumes "see_step E p t s = Inr s'"
  shows "see_stm s' = flip_color (see_stm s) \<and> see_res s' = see_res s XOR 1"
  using assms
  by (auto simp: see_step_def see_capture_def Let_def split: if_splits option.splits)

lemma see_reach_res:
  "see_reach E p m threshold s \<Longrightarrow> see_res s = (if see_stm s = sideToMove p then 1 else 0)"
proof (induction rule: see_reach.induct)
  case start
  then show ?case
    by (simp add: see_init_def Let_def)
next
  case (step s s')
  from see_step_res [OF step.hyps(2)] step.IH show ?case
    by (cases "see_stm s"; cases "sideToMove p") auto
qed

lemma see_reach_ge:
  "see_reach E p m threshold s \<Longrightarrow> see_ge E p m threshold = see_loop E p (to_sq m) s"
proof (induction rule: see_reach.induct)
  case start
  then show ?case
    by (simp add: see_ge_def Let_def)
next
  case (step s s')
  then show ?case
    by (subst (asm) see_loop.simps) simp
qed

text \<open>
  What the loop does with its own attacker set: in every state it reaches, a side
  to move for which \<open>see_stm_attackers\<close> is empty loses (\<open>see_ge\<close> is true
  exactly when that side is not the side that made the move), and in the branch of
  the king the result is reversed when \<open>attackers\<close> still holds a piece of the
  opponent.
\<close>

lemma see_loop_verdict:
  assumes "see_reach E p m threshold s"
  shows "(see_stm_attackers p s = 0
            \<longrightarrow> see_ge E p m threshold = (flip_color (see_stm s) \<noteq> sideToMove p))
       \<and> (see_stm_attackers p s \<noteq> 0 \<and> see_least_attacker p (see_stm_attackers p s) = None
            \<longrightarrow> see_ge E p m threshold
                = (if see_attackers s AND see_occupied s
                       AND NOT (pieces_c p (flip_color (see_stm s))) \<noteq> 0
                   then flip_color (see_stm s) \<noteq> sideToMove p
                   else flip_color (see_stm s) = sideToMove p))"
proof -
  have g: "see_ge E p m threshold = see_loop E p (to_sq m) s"
    using assms by (rule see_reach_ge)
  have r: "see_res s = (if see_stm s = sideToMove p then 1 else 0)"
    using assms by (rule see_reach_res)
  have f: "flip_color (see_stm s) \<noteq> sideToMove p \<longleftrightarrow> see_stm s = sideToMove p"
    by (cases "see_stm s"; cases "sideToMove p") auto
  have a: "see_loop E p (to_sq m) s = (flip_color (see_stm s) \<noteq> sideToMove p)"
    if "see_stm_attackers p s = 0"
  proof -
    have "see_step E p (to_sq m) s = Inl (see_res s \<noteq> 0)"
      using that by (simp add: see_step_def Let_def)
    then show ?thesis
      by (subst see_loop.simps) (simp add: r f)
  qed
  have b: "see_loop E p (to_sq m) s
      = (if see_attackers s AND see_occupied s
             AND NOT (pieces_c p (flip_color (see_stm s))) \<noteq> 0
         then flip_color (see_stm s) \<noteq> sideToMove p
         else flip_color (see_stm s) = sideToMove p)"
    if "see_stm_attackers p s \<noteq> 0" "see_least_attacker p (see_stm_attackers p s) = None"
  proof -
    have "see_step E p (to_sq m) s
        = Inl (if (see_attackers s AND see_occupied s)
                    AND NOT (pieces_c p (flip_color (see_stm s))) \<noteq> 0
               then (see_res s XOR 1) XOR 1 \<noteq> 0 else see_res s XOR 1 \<noteq> 0)"
      using that by (simp add: see_step_def Let_def)
    then show ?thesis
      by (subst see_loop.simps) (cases "see_stm s"; cases "sideToMove p"; simp add: r and.assoc)
  qed
  show ?thesis
    unfolding g using a b by blast
qed

text \<open>
  Claim C6 fails on the source. The loop recomputes \<^verbatim>\<open>cannons\<close> after a pawn, a
  cannon or a rook has captured as \<^verbatim>\<open>attacks_bb<CANNON>(to, occupied)\<close>, without
  the mask \<^verbatim>\<open>& pieces(CANNON)\<close> of its initialisation, so that every piece behind
  one screen counts as an attacker. In \<open>phantom_knight\<close>, after the rook has taken
  the knight on e5 and the pawn has retaken, White is to move and no white piece
  attacks e5; the claim has White lose the exchange (the rook for a knight, at
  threshold \<open>-600\<close>), but the loop lets the knight on e2 capture from behind the
  pawn on e3 and \<open>see_ge\<close> returns true.
\<close>

theorem see_ge_phantom_attacker:
  "pseudo_legal xq phantom_knight (make_move 45 49)
   \<and> legal xq phantom_knight (make_move 45 49)
   \<and> see_reach xq phantom_knight (make_move 45 49) (- 600) after_recapture
   \<and> flip_color (see_stm after_recapture) = sideToMove phantom_knight
   \<and> filter (\<lambda>x. bit (see_occupied after_recapture) x)
        (attackers_of xq phantom_knight (see_occupied after_recapture) WHITE piece_kinds 49) = []
   \<and> see_stm_attackers phantom_knight after_recapture = square_bb 22
   \<and> see_ge xq phantom_knight (make_move 45 49) (- 600)"
proof -
  let ?m = "make_move 45 49"
  have pl: "pseudo_legal xq phantom_knight ?m"
    by code_simp
  have lg: "legal xq phantom_knight ?m"
    by code_simp
  have e: "PieceValueMg xq (piece_on phantom_knight (from_sq ?m))
      - (PieceValueMg xq (piece_on phantom_knight (to_sq ?m)) - (- 600)) = 50"
    and p1: "0 \<le> PieceValueMg xq (piece_on phantom_knight (to_sq ?m)) - (- 600)"
    by code_simp+
  have i: "see_init xq phantom_knight ?m 50 = \<lparr>see_stm = WHITE, see_attackers = 288265560523800576,
      see_occupied = 19342813402064445098688544, see_nonCannons = 288265560523800576,
      see_cannons = 0, see_swap = 50, see_res = 1\<rparr>"
    by code_simp
  have r0: "see_reach xq phantom_knight ?m (- 600) (see_init xq phantom_knight ?m 50)"
    using see_reach.start [of xq phantom_knight ?m "- 600", OF p1] unfolding e by simp
  have st: "see_step xq phantom_knight (to_sq ?m) (see_init xq phantom_knight ?m 50)
      = Inr after_recapture"
    unfolding i by code_simp
  have r1: "see_reach xq phantom_knight ?m (- 600) after_recapture"
    using r0 st by (rule see_reach.step)
  have w: "flip_color (see_stm after_recapture) = sideToMove phantom_knight"
    by code_simp
  have n: "filter (\<lambda>x. bit (see_occupied after_recapture) x)
        (attackers_of xq phantom_knight (see_occupied after_recapture) WHITE piece_kinds 49) = []"
    by code_simp
  have a: "see_stm_attackers phantom_knight after_recapture = square_bb 22"
    by code_simp
  have "see_loop xq phantom_knight 49 after_recapture"
    by code_simp
  then have g: "see_ge xq phantom_knight ?m (- 600)"
    using see_reach_ge [OF r1] by simp
  from pl lg r1 w n a g show ?thesis
    by blast
qed

end
